theory Spec2Isabelle
  imports Complex_Main "HOL-Library.Char_ord" "HOL-Library.List_Lexorder"
begin

section \<open>Configuration and Python idioms\<close>

text \<open>
  The fields of \<^verbatim>\<open>config/settings.py\<close> that the retry handler and the tool envelope read.
  The values are parameters of every definition below; \<open>default_settings\<close> holds the
  defaults of the source.
\<close>

record settings =
  MAX_RETRIES :: int
  RETRY_BACKOFF_BASE :: int
  RETRY_BACKOFF_MAX :: int
  CACHE_TTL :: int
  ENABLE_CACHE :: bool

definition default_settings :: settings where
  "default_settings =
     \<lparr>MAX_RETRIES = 3, RETRY_BACKOFF_BASE = 2, RETRY_BACKOFF_MAX = 60,
      CACHE_TTL = 3600, ENABLE_CACHE = True\<rparr>"

text \<open>
  Python's \<^verbatim>\<open>x or d\<close> on an optional integer: \<^verbatim>\<open>None\<close> and \<^verbatim>\<open>0\<close> are both falsy,
  so either one selects \<open>d\<close>.
\<close>

definition py_or :: "int option \<Rightarrow> int \<Rightarrow> int" where
  "py_or x d = (case x of None \<Rightarrow> d | Some v \<Rightarrow> if v = 0 then d else v)"

section \<open>Exceptions\<close>

text \<open>
  An exception value carries what the code inspects: its place in the class hierarchy of
  \<^verbatim>\<open>requests.exceptions\<close> (\<^verbatim>\<open>ConnectionError\<close> and \<^verbatim>\<open>Timeout\<close> are subclasses of
  \<^verbatim>\<open>RequestException\<close>, which is an \<^verbatim>\<open>Exception\<close>), the name of its type, its
  message (\<^verbatim>\<open>str(e)\<close>), and the status code of its \<^verbatim>\<open>response\<close> attribute when that
  attribute exists and is not \<^verbatim>\<open>None\<close>.
  \<open>PyException\<close> stands for the other subclasses of \<^verbatim>\<open>Exception\<close>, \<open>PyBaseException\<close> for
  the exceptions outside \<^verbatim>\<open>Exception\<close> (\<^verbatim>\<open>KeyboardInterrupt\<close>, \<^verbatim>\<open>SystemExit\<close>,
  \<^verbatim>\<open>GeneratorExit\<close>), which only \<^verbatim>\<open>BaseException\<close> covers.
\<close>

datatype exc_class =
  ConnectionError | Timeout | RequestException | PyException | PyBaseException

record exn =
  exc_class :: exc_class
  exc_name :: string
  exc_msg :: string
  exc_status :: "int option"

fun is_subclass :: "exc_class \<Rightarrow> exc_class \<Rightarrow> bool" where
  "is_subclass c PyBaseException = True"
| "is_subclass PyBaseException d = False"
| "is_subclass c PyException = True"
| "is_subclass ConnectionError RequestException = True"
| "is_subclass Timeout RequestException = True"
| "is_subclass c d = (c = d)"

definition isinstance :: "exn \<Rightarrow> exc_class list \<Rightarrow> bool" where
  "isinstance e cs = (\<exists>c \<in> set cs. is_subclass (exc_class e) c)"

text \<open>What \<^verbatim>\<open>raise last_exception\<close> raises when \<^verbatim>\<open>last_exception\<close> is still \<^verbatim>\<open>None\<close>.\<close>

definition raise_None :: exn where
  "raise_None =
     \<lparr>exc_class = PyException, exc_name = ''TypeError'',
      exc_msg = ''exceptions must derive from BaseException'', exc_status = None\<rparr>"

section \<open>Retry handler (utils/retry\_handler.py)\<close>

definition RETRYABLE_STATUS_CODES :: "int set" where
  "RETRYABLE_STATUS_CODES = {429, 500, 502, 503, 504}"

definition NON_RETRYABLE_STATUS_CODES :: "int set" where
  "NON_RETRYABLE_STATUS_CODES = {400, 401, 403, 404, 405, 422}"

text \<open>
  \<open>calculate_backoff\<close>: \<open>attempt\<close> is the 0-indexed attempt number, \<open>r\<close> the value that
  \<^verbatim>\<open>random.random()\<close> returns (a number in \<open>[0, 1)\<close>); it is read only when \<open>jitter\<close> is set.
  The arithmetic is that of the reals.
\<close>

definition pre_jitter :: "settings \<Rightarrow> nat \<Rightarrow> int option \<Rightarrow> int option \<Rightarrow> int" where
  "pre_jitter s attempt base max_backoff =
     (let base' = py_or base (RETRY_BACKOFF_BASE s);
          max_backoff' = py_or max_backoff (RETRY_BACKOFF_MAX s)
      in min (base' ^ attempt) max_backoff')"

definition calculate_backoff ::
  "settings \<Rightarrow> nat \<Rightarrow> int option \<Rightarrow> int option \<Rightarrow> bool \<Rightarrow> real \<Rightarrow> real" where
  "calculate_backoff s attempt base max_backoff jitter r =
     (let backoff = real_of_int (pre_jitter s attempt base max_backoff)
      in if jitter then backoff * (0.5 + r * 0.5) else backoff)"

definition is_retryable_error :: "exn \<Rightarrow> bool" where
  "is_retryable_error e =
     (if isinstance e [ConnectionError, Timeout] then True
      else if isinstance e [RequestException] then
        (case exc_status e of
           Some status_code \<Rightarrow> status_code \<in> RETRYABLE_STATUS_CODES
         | None \<Rightarrow> False)
      else False)"

text \<open>
  The state the wrapper of \<open>retry_on_failure\<close> acts on: how often the wrapped function has
  been invoked, and the durations passed to \<^verbatim>\<open>time.sleep\<close>, in order.
  The wrapped function is given by the outcome of its \<open>k\<close>-th invocation (counted from 0),
  \<open>rnd a\<close> is the random number drawn for the backoff after attempt \<open>a\<close>.
\<close>

record retry_state =
  calls :: nat
  sleeps :: "real list"

definition retry_init :: retry_state where
  "retry_init = \<lparr>calls = 0, sleeps = []\<rparr>"

definition default_retryable_exceptions :: "exc_class list" where
  "default_retryable_exceptions = [ConnectionError, Timeout, RequestException]"

text \<open>
  The \<^verbatim>\<open>for attempt in range(max_retries + 1)\<close> loop over the attempts still to run;
  the empty list is the code after the loop.
\<close>

fun retry_loop ::
  "settings \<Rightarrow> (nat \<Rightarrow> exn + 'a) \<Rightarrow> int \<Rightarrow> int \<Rightarrow> exc_class list \<Rightarrow> (nat \<Rightarrow> real) \<Rightarrow>
   nat list \<Rightarrow> exn option \<Rightarrow> retry_state \<Rightarrow> (exn + 'a) \<times> retry_state" where
  "retry_loop s func max_retries backoff_base retryable rnd [] last_exception st =
     (case last_exception of None \<Rightarrow> (Inl raise_None, st) | Some e \<Rightarrow> (Inl e, st))"
| "retry_loop s func max_retries backoff_base retryable rnd (attempt # rest) last_exception st =
     (let st1 = st\<lparr>calls := calls st + 1\<rparr> in
      case func (calls st) of
        Inr result \<Rightarrow> (Inr result, st1)
      | Inl e \<Rightarrow>
          if \<not> isinstance e retryable then (Inl e, st1)
          else if \<not> is_retryable_error e then (Inl e, st1)
          else if int attempt < max_retries then
            retry_loop s func max_retries backoff_base retryable rnd rest (Some e)
              (st1\<lparr>sleeps := sleeps st1 @
                 [calculate_backoff s attempt (Some backoff_base) None True (rnd attempt)]\<rparr>)
          else retry_loop s func max_retries backoff_base retryable rnd rest (Some e) st1)"

definition retry_on_failure ::
  "settings \<Rightarrow> int option \<Rightarrow> int option \<Rightarrow> exc_class list \<Rightarrow> (nat \<Rightarrow> exn + 'a) \<Rightarrow>
   (nat \<Rightarrow> real) \<Rightarrow> (exn + 'a) \<times> retry_state" where
  "retry_on_failure s max_retries backoff_base retryable func rnd =
     (let max_retries' = py_or max_retries (MAX_RETRIES s);
          backoff_base' = py_or backoff_base (RETRY_BACKOFF_BASE s)
      in retry_loop s func max_retries' backoff_base' retryable rnd
           [0 ..< nat (max_retries' + 1)] None retry_init)"

text \<open>Two exceptions used in the examples below.\<close>

definition conn_refused :: exn where
  "conn_refused =
     \<lparr>exc_class = ConnectionError, exc_name = ''ConnectionError'',
      exc_msg = ''connection refused'', exc_status = None\<rparr>"

definition http_error :: "int \<Rightarrow> exn" where
  "http_error status_code =
     \<lparr>exc_class = RequestException, exc_name = ''HTTPError'',
      exc_msg = ''Client Error'', exc_status = Some status_code\<rparr>"

section \<open>Rate limiter (utils/rate\_limiter.py)\<close>

record token_bucket =
  rate :: real
  capacity :: real
  tokens :: real
  last_update :: real

text \<open>\<^verbatim>\<open>capacity or rate\<close>: a capacity of \<^verbatim>\<open>None\<close> or \<open>0\<close> selects the rate.\<close>

definition TokenBucket :: "real \<Rightarrow> real option \<Rightarrow> real \<Rightarrow> token_bucket" where
  "TokenBucket rate' capacity' now =
     (let cap = (case capacity' of None \<Rightarrow> rate' | Some c \<Rightarrow> if c = 0 then rate' else c)
      in \<lparr>rate = rate', capacity = cap, tokens = cap, last_update = now\<rparr>)"

text \<open>
  \<open>consume\<close> under the lock: \<open>now\<close> is the reading of \<^verbatim>\<open>time.time()\<close>; the result is
  the flag returned and the bucket as the call leaves it.
\<close>

definition consume :: "token_bucket \<Rightarrow> real \<Rightarrow> int \<Rightarrow> bool \<times> token_bucket" where
  "consume b now n =
     (let elapsed = now - last_update b;
          b1 = b\<lparr>tokens := min (capacity b) (tokens b + elapsed * rate b), last_update := now\<rparr>
      in if tokens b1 \<ge> real_of_int n
         then (True, b1\<lparr>tokens := tokens b1 - real_of_int n\<rparr>)
         else (False, b1))"

text \<open>
  \<^verbatim>\<open>while not self.consume(tokens): time.sleep(0.1)\<close>. The loop reads the clock once per
  round and need not end (a request above the capacity never succeeds), so it runs on the
  list of the clock readings still to come; \<open>None\<close> is the loop still running when the
  readings are used up.
\<close>

fun wait_for_token :: "token_bucket \<Rightarrow> int \<Rightarrow> real list \<Rightarrow> (token_bucket \<times> real list) option" where
  "wait_for_token b n [] = None"
| "wait_for_token b n (now # clock) =
     (case consume b now n of
        (True, b') \<Rightarrow> Some (b', clock)
      | (False, b') \<Rightarrow> wait_for_token b' n clock)"

text \<open>
  The registry of buckets of \<open>RateLimiter\<close>, and its \<open>wait\<close> (named \<open>rl_wait\<close> here).
  Creating a bucket reads the clock once, every \<open>consume\<close> once more.
\<close>

type_synonym rate_limiter = "string \<rightharpoonup> token_bucket"

definition get_bucket :: "rate_limiter \<Rightarrow> string \<Rightarrow> real \<Rightarrow> real list \<Rightarrow> (token_bucket \<times> rate_limiter \<times> real list) option" where
  "get_bucket buckets key rate' clock =
     (case buckets key of
        Some b \<Rightarrow> Some (b, buckets, clock)
      | None \<Rightarrow>
          (case clock of
             [] \<Rightarrow> None
           | now # clock' \<Rightarrow>
               (let b = TokenBucket rate' None now in Some (b, buckets(key \<mapsto> b), clock'))))"

definition rl_wait :: "rate_limiter \<Rightarrow> string \<Rightarrow> real \<Rightarrow> int \<Rightarrow> real list \<Rightarrow> (rate_limiter \<times> real list) option" where
  "rl_wait buckets key rate' n clock =
     (case get_bucket buckets key rate' clock of
        None \<Rightarrow> None
      | Some (b, buckets1, clock1) \<Rightarrow>
          (case clock1 of
             [] \<Rightarrow> None
           | now # clock2 \<Rightarrow>
               (case consume b now n of
                  (True, b') \<Rightarrow> Some (buckets1(key \<mapsto> b'), clock2)
                | (False, b') \<Rightarrow>
                    (case wait_for_token b' n clock2 of
                       None \<Rightarrow> None
                     | Some (b'', clock3) \<Rightarrow> Some (buckets1(key \<mapsto> b''), clock3)))))"

text \<open>The invariant of a bucket, and the buckets seen after each of a sequence of
  \<open>consume\<close> calls, each given by its clock reading and the amount requested.\<close>

definition bucket_ok :: "token_bucket \<Rightarrow> bool" where
  "bucket_ok b = (0 \<le> tokens b \<and> tokens b \<le> capacity b)"

fun consume_trace :: "token_bucket \<Rightarrow> (real \<times> int) list \<Rightarrow> token_bucket list" where
  "consume_trace b [] = []"
| "consume_trace b ((now, n) # ops) =
     (let b' = snd (consume b now n) in b' # consume_trace b' ops)"

section \<open>Values\<close>

text \<open>
  Python values as far as the envelope looks at them: \<^verbatim>\<open>None\<close> is told from everything
  else, and a list has a length.
\<close>

datatype pyval = PNone | PBool bool | PInt int | PStr string | PList "pyval list"
  | PDict "(string \<times> pyval) list"

section \<open>Cache keys and the cache (tools/base\_tool.py)\<close>

text \<open>\<^verbatim>\<open>sep.join(xs)\<close>.\<close>

fun join :: "string \<Rightarrow> string list \<Rightarrow> string" where
  "join sep [] = []"
| "join sep [x] = x"
| "join sep (x # y # ys) = x @ sep @ join sep (y # ys)"

text \<open>
  \<open>_get_cache_key\<close>. The keyword arguments are the items of a dict in insertion order, so
  their names are distinct; \<^verbatim>\<open>sorted(params.items())\<close> then orders them by name, and strings
  are ordered as Python orders them, lexicographically by character code.
  \<open>str_of\<close> is \<^verbatim>\<open>str\<close> on the values, which the f-string applies.
\<close>

definition get_cache_key :: "('v \<Rightarrow> string) \<Rightarrow> string \<Rightarrow> (string \<times> 'v) list \<Rightarrow> string" where
  "get_cache_key str_of method params =
     (let param_str = join ''&'' (map (\<lambda>(k, v). k @ ''='' @ str_of v) (sort_key fst params))
      in method @ '':'' @ param_str)"

text \<open>
  The cache of a tool maps a key to the time of storing and the value stored.
  \<open>now\<close> is the reading of \<^verbatim>\<open>time.time()\<close>. \<open>_get_from_cache\<close> returns the value, with
  \<^verbatim>\<open>None\<close> for "not found or expired", and the cache as it leaves it.
\<close>

type_synonym cache = "string \<rightharpoonup> (real \<times> pyval)"

definition get_from_cache :: "settings \<Rightarrow> cache \<Rightarrow> string \<Rightarrow> real \<Rightarrow> pyval \<times> cache" where
  "get_from_cache s cache cache_key now =
     (if \<not> ENABLE_CACHE s then (PNone, cache)
      else
        (case cache cache_key of
           Some (timestamp, data) \<Rightarrow>
             if now - timestamp < real_of_int (CACHE_TTL s) then (data, cache)
             else (PNone, cache(cache_key := None))
         | None \<Rightarrow> (PNone, cache)))"

definition save_to_cache :: "settings \<Rightarrow> cache \<Rightarrow> string \<Rightarrow> pyval \<Rightarrow> real \<Rightarrow> cache" where
  "save_to_cache s cache cache_key data now =
     (if ENABLE_CACHE s then cache(cache_key \<mapsto> (now, data)) else cache)"

text \<open>The configuration with caching switched off, and a cache with one entry, for the
  examples below.\<close>

definition disabled_settings :: settings where
  "disabled_settings = default_settings\<lparr>ENABLE_CACHE := False\<rparr>"

definition stale_cache :: cache where
  "stale_cache = [''k'' \<mapsto> (0, PStr ''old'')]"

section \<open>The tool envelope (tools/base\_tool.py)\<close>

text \<open>
  The \<^verbatim>\<open>metadata\<close> dict of a result: the failure branch sets neither \<^verbatim>\<open>cached\<close> nor
  \<^verbatim>\<open>results_count\<close>. In a \<open>ToolResult\<close>, \<open>data = PNone\<close> is Python's \<^verbatim>\<open>data=None\<close>.
\<close>

record metadata =
  md_query :: string
  md_timestamp :: string
  md_tool :: string
  md_latency_ms :: int
  md_cached :: "bool option"
  md_results_count :: "int option"

record ToolResult =
  success :: bool
  data :: pyval
  metadata :: "metadata option"
  error :: "string option"

definition handle_errors :: "exn \<Rightarrow> string" where
  "handle_errors e =
     (let error_type = exc_name e; error_msg = exc_msg e in
      if error_type = ''ConnectionError''
        then ''Failed to connect to API. Please check your internet connection.''
      else if error_type = ''Timeout'' then ''API request timed out. Please try again.''
      else if error_type = ''HTTPError'' then ''API returned an error: '' @ error_msg
      else if error_type = ''JSONDecodeError''
        then ''Failed to parse API response. The API may be experiencing issues.''
      else if error_type = ''ValueError'' then ''Invalid input: '' @ error_msg
      else if error_type = ''KeyError''
        then ''Missing expected data in API response: '' @ error_msg
      else error_type @ '': '' @ error_msg)"

text \<open>\<^verbatim>\<open>int((now - start_time) * 1000)\<close>: \<^verbatim>\<open>int\<close> truncates towards zero.\<close>

definition latency :: "real \<Rightarrow> real \<Rightarrow> int" where
  "latency start_time now =
     (let x = (now - start_time) * 1000 in if 0 \<le> x then \<lfloor>x\<rfloor> else \<lceil>x\<rceil>)"

text \<open>\<^verbatim>\<open>len(d) if isinstance(d, list) else 1\<close>.\<close>

definition results_count :: "pyval \<Rightarrow> int" where
  "results_count d = (case d of PList xs \<Rightarrow> int (length xs) | _ \<Rightarrow> 1)"

text \<open>
  What one call reads from outside: the clock at the start, inside \<open>_get_from_cache\<close>,
  inside \<open>_save_to_cache\<close> and where the latency is taken, and the text of
  \<^verbatim>\<open>datetime.utcnow().isoformat()\<close>.
\<close>

record call_times =
  t_start :: real
  t_lookup :: real
  t_save :: real
  t_end :: real
  utc :: string

text \<open>
  The state a call acts on: the cache of the tool, and \<open>world\<close>, everything the request
  function \<open>func\<close> acts on: the network and the buckets of the rate limiter, which the
  envelope reaches through \<open>func\<close> only (the adapters put \<^verbatim>\<open>@rate_limit\<close> on the methods
  their request functions call). \<open>invocations\<close> counts the calls of \<open>func\<close>; the source
  has no such counter, it is there to state how often \<open>func\<close> ran.
  \<open>func\<close> and \<open>parse_results\<close> return a value or raise; logging is left out.
\<close>

record 'w tool_state =
  tool_cache :: cache
  invocations :: nat
  world :: 'w

text \<open>The body of the \<^verbatim>\<open>try\<close>; \<open>Inl e\<close> is the exception \<open>e\<close> leaving it.\<close>

definition try_block ::
  "settings \<Rightarrow> string \<Rightarrow> (pyval \<Rightarrow> exn + pyval) \<Rightarrow> string \<Rightarrow> string \<Rightarrow>
   ((string \<times> 'v) list \<Rightarrow> 'w \<Rightarrow> (exn + pyval) \<times> 'w) \<Rightarrow> (string \<times> 'v) list \<Rightarrow>
   call_times \<Rightarrow> 'w tool_state \<Rightarrow> (exn + ToolResult) \<times> 'w tool_state" where
  "try_block s name parse_results cache_key query func kwargs tm st =
     (let (cached_data, cache1) = get_from_cache s (tool_cache st) cache_key (t_lookup tm);
          st1 = st\<lparr>tool_cache := cache1\<rparr>
      in if cached_data \<noteq> PNone then
           (Inr \<lparr>success = True, data = cached_data,
                 metadata = Some \<lparr>md_query = query, md_timestamp = utc tm @ ''Z'', md_tool = name,
                   md_latency_ms = latency (t_start tm) (t_end tm), md_cached = Some True,
                   md_results_count = Some (results_count cached_data)\<rparr>,
                 error = None\<rparr>, st1)
         else
           (let (r, w1) = func kwargs (world st1);
                st2 = st1\<lparr>invocations := invocations st1 + 1, world := w1\<rparr>
            in case r of
                 Inl e \<Rightarrow> (Inl e, st2)
               | Inr raw_data \<Rightarrow>
                   (case parse_results raw_data of
                      Inl e \<Rightarrow> (Inl e, st2)
                    | Inr parsed_data \<Rightarrow>
                        (let st3 = st2\<lparr>tool_cache :=
                               save_to_cache s (tool_cache st2) cache_key parsed_data (t_save tm)\<rparr>
                         in (Inr \<lparr>success = True, data = parsed_data,
                               metadata = Some \<lparr>md_query = query, md_timestamp = utc tm @ ''Z'',
                                 md_tool = name, md_latency_ms = latency (t_start tm) (t_end tm),
                                 md_cached = Some False,
                                 md_results_count = Some (results_count parsed_data)\<rparr>,
                               error = None\<rparr>, st3)))))"

text \<open>
  The binding of the arguments and the call
  \<^verbatim>\<open>self._get_cache_key(method_name, query=query, **kwargs)\<close>.
  The keyword arguments are the items of a dict, so their names are distinct. One that is
  named like a parameter of the envelope is refused by Python when the envelope is called,
  before its body runs; one named \<^verbatim>\<open>method\<close> is passed on and meets the parameter
  \<^verbatim>\<open>method\<close> of \<open>_get_cache_key\<close>, which has its value from the first argument already.
  Either way the caller gets a \<^verbatim>\<open>TypeError\<close> ("got multiple values for argument", in the
  wording of CPython, which newer versions prefix with the class name), and in the second
  case it is raised inside the envelope, before the \<^verbatim>\<open>try\<close> is entered.
  \<open>query\<close> is a string, which \<^verbatim>\<open>str\<close> leaves as it is; \<open>str_of\<close> is \<^verbatim>\<open>str\<close> on the other
  values.
\<close>

definition envelope_parameters :: "string list" where
  "envelope_parameters = [''self'', ''method_name'', ''query'', ''func'']"

definition multiple_values :: "string \<Rightarrow> string \<Rightarrow> exn" where
  "multiple_values f arg =
     \<lparr>exc_class = PyException, exc_name = ''TypeError'',
      exc_msg = f @ ''() got multiple values for argument '' @ [CHR 0x27] @ arg @ [CHR 0x27],
      exc_status = None\<rparr>"

definition envelope_key ::
  "('v \<Rightarrow> string) \<Rightarrow> string \<Rightarrow> string \<Rightarrow> (string \<times> 'v) list \<Rightarrow> exn + string" where
  "envelope_key str_of method_name query kwargs =
     (case find (\<lambda>n. n \<in> set envelope_parameters) (map fst kwargs) of
        Some n \<Rightarrow> Inl (multiple_values ''_execute_with_monitoring'' n)
      | None \<Rightarrow>
          if ''method'' \<in> set (map fst kwargs)
          then Inl (multiple_values ''_get_cache_key'' ''method'')
          else Inr (get_cache_key (case_sum id str_of) method_name
                      ((''query'', Inl query) # map (\<lambda>(k, v). (k, Inr v)) kwargs)))"

text \<open>
  \<open>_execute_with_monitoring\<close>. The key is built before the \<^verbatim>\<open>try\<close>, so an exception
  of that step reaches the caller. \<^verbatim>\<open>except Exception\<close> takes the exceptions of the
  \<^verbatim>\<open>try\<close> body that are instances of \<^verbatim>\<open>Exception\<close>; any other leaves the envelope.
  \<open>Inl e\<close> is the envelope raising \<open>e\<close>, \<open>Inr r\<close> the envelope returning \<open>r\<close>.
\<close>

definition execute_with_monitoring ::
  "settings \<Rightarrow> string \<Rightarrow> ('v \<Rightarrow> string) \<Rightarrow> (pyval \<Rightarrow> exn + pyval) \<Rightarrow> string \<Rightarrow> string \<Rightarrow>
   ((string \<times> 'v) list \<Rightarrow> 'w \<Rightarrow> (exn + pyval) \<times> 'w) \<Rightarrow> (string \<times> 'v) list \<Rightarrow>
   call_times \<Rightarrow> 'w tool_state \<Rightarrow> (exn + ToolResult) \<times> 'w tool_state" where
  "execute_with_monitoring s name str_of parse_results method_name query func kwargs tm st =
     (case envelope_key str_of method_name query kwargs of
        Inl e \<Rightarrow> (Inl e, st)
      | Inr cache_key \<Rightarrow>
          (case try_block s name parse_results cache_key query func kwargs tm st of
             (Inr result, st') \<Rightarrow> (Inr result, st')
           | (Inl e, st') \<Rightarrow>
               if isinstance e [PyException] then
                 (let error_msg = handle_errors e
                  in (Inr \<lparr>success = False, data = PNone,
                        metadata = Some \<lparr>md_query = query, md_timestamp = utc tm @ ''Z'',
                          md_tool = name, md_latency_ms = latency (t_start tm) (t_end tm),
                          md_cached = None, md_results_count = None\<rparr>,
                        error = Some error_msg\<rparr>, st'))
               else (Inl e, st')))"

text \<open>A sequence of calls of one envelope, one after the other, each with its readings.\<close>

fun run_calls ::
  "(call_times \<Rightarrow> 'w tool_state \<Rightarrow> (exn + ToolResult) \<times> 'w tool_state) \<Rightarrow>
   call_times list \<Rightarrow> 'w tool_state \<Rightarrow> (exn + ToolResult) list \<times> 'w tool_state" where
  "run_calls call [] st = ([], st)"
| "run_calls call (tm # tms) st =
     (let (r, st1) = call tm st; (rs, st2) = run_calls call tms st1 in (r # rs, st2))"

text \<open>
  What a caller sees of the outcome of a call apart from the metadata, and whether the
  outcome is a result served from the cache.
\<close>

definition observable :: "exn + ToolResult \<Rightarrow> exn + bool \<times> pyval \<times> string option" where
  "observable out = (case out of Inl e \<Rightarrow> Inl e | Inr r \<Rightarrow> Inr (success r, data r, error r))"

definition is_cache_hit :: "exn + ToolResult \<Rightarrow> bool" where
  "is_cache_hit out =
     (case out of
        Inl e \<Rightarrow> False
      | Inr r \<Rightarrow> (case metadata r of None \<Rightarrow> False | Some m \<Rightarrow> md_cached m = Some True))"

subsection \<open>Tools, request functions and parsers of the examples\<close>

text \<open>A tool as \<open>__init__\<close> leaves it: the cache is empty.\<close>

definition new_tool :: "'w \<Rightarrow> 'w tool_state" where
  "new_tool w = \<lparr>tool_cache = Map.empty, invocations = 0, world = w\<rparr>"

definition at_time :: "real \<Rightarrow> call_times" where
  "at_time t =
     \<lparr>t_start = t, t_lookup = t, t_save = t + 1 / 2, t_end = t + 1 / 2,
      utc = ''2024-01-01T00:00:00''\<rparr>"

text \<open>
  A world with the buckets of the rate limiter, the clock readings still to come and the
  number of requests sent. \<open>fetch response\<close> is a request function under
  \<^verbatim>\<open>@rate_limit("pubmed", 3)\<close> that is answered with \<open>response\<close>; \<open>fetch_flaky\<close> is answered
  the first time and refused a connection from then on; \<open>fetch_interrupted\<close> is interrupted
  from the keyboard.
\<close>

record net =
  limiter :: rate_limiter
  readings :: "real list"
  requests :: nat

definition net0 :: net where
  "net0 = \<lparr>limiter = Map.empty, readings = [0, 0, 1, 1, 2, 2], requests = 0\<rparr>"

definition rate_limited :: "(net \<Rightarrow> (exn + pyval) \<times> net) \<Rightarrow> net \<Rightarrow> (exn + pyval) \<times> net" where
  "rate_limited f w =
     (case rl_wait (limiter w) ''pubmed'' 3 1 (readings w) of
        None \<Rightarrow> (Inl \<lparr>exc_class = Timeout, exc_name = ''Timeout'',
                       exc_msg = ''no token'', exc_status = None\<rparr>, w)
      | Some (buckets, rest) \<Rightarrow> f (w\<lparr>limiter := buckets, readings := rest\<rparr>))"

definition fetch :: "pyval \<Rightarrow> (string \<times> string) list \<Rightarrow> net \<Rightarrow> (exn + pyval) \<times> net" where
  "fetch response kwargs w =
     rate_limited (\<lambda>w'. (Inr response, w'\<lparr>requests := requests w' + 1\<rparr>)) w"

definition fetch_flaky :: "pyval \<Rightarrow> (string \<times> string) list \<Rightarrow> net \<Rightarrow> (exn + pyval) \<times> net" where
  "fetch_flaky response kwargs w =
     rate_limited (\<lambda>w'. (if requests w' = 0 then Inr response else Inl conn_refused,
                          w'\<lparr>requests := requests w' + 1\<rparr>)) w"



text \<open>
  A parser that returns what it is given when that is no dict, as
  \<open>ChEMBLTool.parse_results\<close> does, and one that raises \<^verbatim>\<open>ValueError\<close> on anything but a
  list.
\<close>

definition passthrough_parser :: "pyval \<Rightarrow> exn + pyval" where
  "passthrough_parser raw_data =
     (case raw_data of PDict items \<Rightarrow> Inr (PList (map snd items)) | _ \<Rightarrow> Inr raw_data)"

definition not_a_list :: exn where
  "not_a_list =
     \<lparr>exc_class = PyException, exc_name = ''ValueError'', exc_msg = ''not a list'',
      exc_status = None\<rparr>"

definition list_parser :: "pyval \<Rightarrow> exn + pyval" where
  "list_parser raw_data =
     (case raw_data of PList xs \<Rightarrow> Inr (PList xs) | _ \<Rightarrow> Inl not_a_list)"

definition papers :: pyval where
  "papers = PList [PStr ''paper 1'', PStr ''paper 2'']"

subsection \<open>The results of the paths of a call\<close>

text \<open>
  The result of a call that is served from the cache, of one that ran the request and the
  parser, and of one whose exception \<^verbatim>\<open>except Exception\<close> took; \<open>caught\<close> is what becomes
  of an exception that leaves the \<^verbatim>\<open>try\<close> body.
\<close>

definition hit_result :: "string \<Rightarrow> string \<Rightarrow> call_times \<Rightarrow> pyval \<Rightarrow> ToolResult" where
  "hit_result name query tm d =
     \<lparr>success = True, data = d,
      metadata = Some \<lparr>md_query = query, md_timestamp = utc tm @ ''Z'', md_tool = name,
        md_latency_ms = latency (t_start tm) (t_end tm), md_cached = Some True,
        md_results_count = Some (results_count d)\<rparr>,
      error = None\<rparr>"

definition miss_result :: "string \<Rightarrow> string \<Rightarrow> call_times \<Rightarrow> pyval \<Rightarrow> ToolResult" where
  "miss_result name query tm d =
     \<lparr>success = True, data = d,
      metadata = Some \<lparr>md_query = query, md_timestamp = utc tm @ ''Z'', md_tool = name,
        md_latency_ms = latency (t_start tm) (t_end tm), md_cached = Some False,
        md_results_count = Some (results_count d)\<rparr>,
      error = None\<rparr>"

definition error_result :: "string \<Rightarrow> string \<Rightarrow> call_times \<Rightarrow> exn \<Rightarrow> ToolResult" where
  "error_result name query tm e =
     \<lparr>success = False, data = PNone,
      metadata = Some \<lparr>md_query = query, md_timestamp = utc tm @ ''Z'', md_tool = name,
        md_latency_ms = latency (t_start tm) (t_end tm), md_cached = None,
        md_results_count = None\<rparr>,
      error = Some (handle_errors e)\<rparr>"

definition caught :: "string \<Rightarrow> string \<Rightarrow> call_times \<Rightarrow> exn \<Rightarrow> exn + ToolResult" where
  "caught name query tm e =
     (if isinstance e [PyException] then Inr (error_result name query tm e) else Inl e)"

text \<open>
  What a call shows of an outcome \<open>r\<close> of the request function when no cache is in the way,
  and the cache holding, under the key \<open>k\<close>, nothing or the value parsed from \<open>r\<close>.
\<close>

definition outcome_of :: "(pyval \<Rightarrow> exn + pyval) \<Rightarrow> exn + pyval \<Rightarrow> exn + bool \<times> pyval \<times> string option" where
  "outcome_of parse_results r =
     (case r of
        Inl e \<Rightarrow>
          if isinstance e [PyException] then Inr (False, PNone, Some (handle_errors e)) else Inl e
      | Inr raw \<Rightarrow>
          (case parse_results raw of
             Inl e \<Rightarrow>
               if isinstance e [PyException] then Inr (False, PNone, Some (handle_errors e))
               else Inl e
           | Inr p \<Rightarrow> Inr (True, p, None)))"

definition entry_agrees :: "(pyval \<Rightarrow> exn + pyval) \<Rightarrow> exn + pyval \<Rightarrow> cache \<Rightarrow> string \<Rightarrow> bool" where
  "entry_agrees parse_results r cache k =
     (case cache k of
        None \<Rightarrow> True
      | Some (ts, d) \<Rightarrow> outcome_of parse_results r = Inr (True, d, None))"

subsection \<open>A tool and its calls in the examples\<close>

text \<open>
  \<open>search_pubmed\<close> on the query \<^verbatim>\<open>egfr\<close>; the world and the tool after a first call at time
  \<open>0\<close> whose request took a token and whose parser returned \<open>papers\<close> (\<open>warm_tool\<close>) or
  \<^verbatim>\<open>None\<close> (\<open>null_tool\<close>); a request function on which no rate limit is put.
\<close>

definition pubmed_call ::
  "settings \<Rightarrow> (pyval \<Rightarrow> exn + pyval) \<Rightarrow>
   ((string \<times> string) list \<Rightarrow> net \<Rightarrow> (exn + pyval) \<times> net) \<Rightarrow> (string \<times> string) list \<Rightarrow>
   call_times \<Rightarrow> net tool_state \<Rightarrow> (exn + ToolResult) \<times> net tool_state" where
  "pubmed_call s parse f kwargs =
     execute_with_monitoring s ''PubMed'' id parse ''search_pubmed'' ''egfr'' f kwargs"

definition net1 :: net where
  "net1 =
     \<lparr>limiter = [''pubmed'' \<mapsto> \<lparr>rate = 3, capacity = 3, tokens = 2, last_update = 0\<rparr>],
      readings = [1, 1, 2, 2], requests = 1\<rparr>"

definition warm_tool :: "net tool_state" where
  "warm_tool =
     \<lparr>tool_cache = [''search_pubmed:query=egfr'' \<mapsto> (1 / 2, papers)], invocations = 1,
      world = net1\<rparr>"

definition null_tool :: "net tool_state" where
  "null_tool =
     \<lparr>tool_cache = [''search_pubmed:query=egfr'' \<mapsto> (1 / 2, PNone)], invocations = 1,
      world = net1\<rparr>"

definition fetch_unlimited :: "pyval \<Rightarrow> (string \<times> string) list \<Rightarrow> net \<Rightarrow> (exn + pyval) \<times> net" where
  "fetch_unlimited response kwargs w = (Inr response, w\<lparr>requests := requests w + 1\<rparr>)"

section \<open>Properties of the retry handler\<close>

lemma py_or_idem: "py_or (Some (py_or x d)) d = py_or x d"
  by (simp add: py_or_def split: option.splits)

lemma retry_loop_all_fail:
  assumes "\<And>k. isinstance (errs k) retryable"
    and "\<And>k. is_retryable_error (errs k)"
  shows "retry_loop s (\<lambda>k. Inl (errs k)) mr bb retryable rnd as lst st =
     (Inl (if as = [] then (case lst of None \<Rightarrow> raise_None | Some e \<Rightarrow> e)
           else errs (calls st + length as - 1)),
      st\<lparr>calls := calls st + length as,
         sleeps := sleeps st @
           map (\<lambda>a. calculate_backoff s a (Some bb) None True (rnd a))
             (filter (\<lambda>a. int a < mr) as)\<rparr>)"
proof (induction as arbitrary: lst st)
  case Nil
  show ?case by (cases lst) simp_all
next
  case (Cons a as)
  show ?case
    by (cases "as = []") (simp_all add: assms Cons.IH Let_def)
qed

lemma filter_upt_all:
  "filter (\<lambda>a. int a < mr) [0 ..< nat mr] = [0 ..< nat mr]"
  by (rule filter_True) auto

text \<open>
  Retry exhaustion for an effective retry count \<open>N\<close> (the argument, or the configured
  default where the argument is \<^verbatim>\<open>None\<close> or \<^verbatim>\<open>0\<close>): a function that fails with a
  retryable error at every invocation is invoked \<open>N + 1\<close> times, the wrapper sleeps \<open>N\<close>
  times, and the exception raised is the one of the last invocation.
\<close>

lemma retry_exhaustion:
  assumes "\<And>k. func k = Inl (errs k)"
    and "\<And>k. isinstance (errs k) retryable"
    and "\<And>k. is_retryable_error (errs k)"
    and "py_or max_retries (MAX_RETRIES s) = N" and "0 \<le> N"
  shows "fst (retry_on_failure s max_retries backoff_base retryable func rnd) = Inl (errs (nat N))"
    and "calls (snd (retry_on_failure s max_retries backoff_base retryable func rnd)) = nat N + 1"
    and "length (sleeps (snd (retry_on_failure s max_retries backoff_base retryable func rnd))) = nat N"
proof -
  have f: "func = (\<lambda>k. Inl (errs k))" using assms(1) by auto
  show "fst (retry_on_failure s max_retries backoff_base retryable func rnd) = Inl (errs (nat N))"
    and "calls (snd (retry_on_failure s max_retries backoff_base retryable func rnd)) = nat N + 1"
    and "length (sleeps (snd (retry_on_failure s max_retries backoff_base retryable func rnd))) = nat N"
    using assms(4,5) unfolding f
    by (simp_all add: retry_on_failure_def retry_loop_all_fail[OF assms(2,3)] retry_init_def
        filter_upt_all Let_def nat_add_distrib)
qed

lemma three_retries_four_calls:
  "retry_on_failure default_settings (Some 3) None default_retryable_exceptions
     (\<lambda>k. Inl conn_refused :: exn + unit) (\<lambda>a. 0) =
   (Inl conn_refused, \<lparr>calls = 4, sleeps = [1 / 2, 1, 2]\<rparr>)"
  by (simp add: retry_on_failure_def default_settings_def py_or_def retry_init_def
      conn_refused_def default_retryable_exceptions_def isinstance_def is_retryable_error_def
      calculate_backoff_def pre_jitter_def upt_rec)

text \<open>
  Claim C2. A function that raises a retryable error at every invocation, wrapped with
  \<open>max_retries = N\<close>, should be invoked \<open>N + 1\<close> times. With \<open>max_retries = 0\<close> and the
  default configuration (\<open>MAX_RETRIES = 3\<close>) the wrapper takes the configured default in
  place of the \<open>0\<close> it was given: the function is invoked four times, with three sleeps
  in between, not once.
\<close>

theorem retry_zero_max_retries_invokes_four_times:
  "retry_on_failure default_settings (Some 0) None default_retryable_exceptions
     (\<lambda>k. Inl conn_refused :: exn + unit) (\<lambda>a. 0) =
   (Inl conn_refused, \<lparr>calls = 4, sleeps = [1 / 2, 1, 2]\<rparr>)"
  by (simp add: retry_on_failure_def default_settings_def py_or_def retry_init_def
      conn_refused_def default_retryable_exceptions_def isinstance_def is_retryable_error_def
      calculate_backoff_def pre_jitter_def upt_rec)

text \<open>
  Claim C3. A protocol-level failure (a \<^verbatim>\<open>RequestException\<close> that is neither a
  \<^verbatim>\<open>ConnectionError\<close> nor a \<^verbatim>\<open>Timeout\<close>) whose response status is in the non-retryable
  set, or in neither the retryable nor the non-retryable set, is classified as not
  retryable; the wrapper invokes the function once, never sleeps, and raises that very
  exception. The retry count in effect is a count: it is not negative.
\<close>

theorem non_retryable_status_fails_fast:
  assumes "exc_class e = RequestException" and "exc_status e = Some c"
    and "c \<in> NON_RETRYABLE_STATUS_CODES \<or>
         (c \<notin> RETRYABLE_STATUS_CODES \<and> c \<notin> NON_RETRYABLE_STATUS_CODES)"
    and "func 0 = Inl e" and "0 \<le> py_or max_retries (MAX_RETRIES s)"
  shows "\<not> is_retryable_error e \<and>
     retry_on_failure s max_retries backoff_base retryable func rnd =
       (Inl e, \<lparr>calls = 1, sleeps = []\<rparr>)"
proof -
  let ?N = "py_or max_retries (MAX_RETRIES s)"
  have c: "c \<notin> RETRYABLE_STATUS_CODES"
    using assms(3) by (auto simp: RETRYABLE_STATUS_CODES_def NON_RETRYABLE_STATUS_CODES_def)
  have nr: "\<not> is_retryable_error e"
    using assms(1,2) c by (simp add: is_retryable_error_def isinstance_def)
  have "nat (?N + 1) = Suc (nat ?N)"
    using assms(5) by simp
  then have "[0 ..< nat (?N + 1)] = 0 # [1 ..< Suc (nat ?N)]"
    by (simp add: upt_rec)
  then show ?thesis
    using nr assms(4) by (simp add: retry_on_failure_def Let_def retry_init_def)
qed

theorem non_retryable_status_fails_fast_witness:
  "exc_class (http_error 404) = RequestException \<and> exc_status (http_error 404) = Some 404 \<and>
   (404 \<in> NON_RETRYABLE_STATUS_CODES \<or>
      (404 \<notin> RETRYABLE_STATUS_CODES \<and> 404 \<notin> NON_RETRYABLE_STATUS_CODES)) \<and>
   (\<lambda>k::nat. Inl (http_error 404) :: exn + unit) 0 = Inl (http_error 404) \<and>
   0 \<le> py_or (Some 3) (MAX_RETRIES default_settings) \<and>
   \<not> is_retryable_error (http_error 404) \<and>
   retry_on_failure default_settings (Some 3) None default_retryable_exceptions
     (\<lambda>k. Inl (http_error 404) :: exn + unit) (\<lambda>a. 0) =
   (Inl (http_error 404), \<lparr>calls = 1, sleeps = []\<rparr>)"
proof -
  have h1: "exc_class (http_error 404) = RequestException" by (simp add: http_error_def)
  have h2: "exc_status (http_error 404) = Some 404" by (simp add: http_error_def)
  have h3: "404 \<in> NON_RETRYABLE_STATUS_CODES \<or>
      (404 \<notin> RETRYABLE_STATUS_CODES \<and> 404 \<notin> NON_RETRYABLE_STATUS_CODES)"
    by (simp add: NON_RETRYABLE_STATUS_CODES_def)
  have h4: "(\<lambda>k::nat. Inl (http_error 404) :: exn + unit) 0 = Inl (http_error 404)" by simp
  have h5: "0 \<le> py_or (Some 3) (MAX_RETRIES default_settings)" by (simp add: py_or_def)
  show ?thesis
    using non_retryable_status_fails_fast [OF h1 h2 h3 h4 h5, of None default_retryable_exceptions "\<lambda>a. 0"]
      h1 h2 h3 h5 by simp
qed

text \<open>
  A status outside both sets, here 418, is treated the same way.
\<close>

lemma unlisted_status_fails_fast:
  "retry_on_failure default_settings None None default_retryable_exceptions
     (\<lambda>k. Inl (http_error 418) :: exn + unit) (\<lambda>a. 0) =
   (Inl (http_error 418), \<lparr>calls = 1, sleeps = []\<rparr>)"
  by (simp add: retry_on_failure_def default_settings_def py_or_def retry_init_def
      http_error_def default_retryable_exceptions_def isinstance_def is_retryable_error_def
      RETRYABLE_STATUS_CODES_def upt_rec)

subsection \<open>Backoff\<close>

lemma pre_jitter_given:
  "b \<noteq> 0 \<Longrightarrow> m \<noteq> 0 \<Longrightarrow> pre_jitter s a (Some b) (Some m) = min (b ^ a) m"
  by (simp add: pre_jitter_def py_or_def)

text \<open>
  With a base and a cap other than \<open>0\<close>, the backoff is \<open>min (b ^ a) m\<close> scaled by a
  factor between one half and one.
\<close>

lemma calculate_backoff_formula:
  assumes "b \<noteq> 0" and "m \<noteq> 0" and "0 \<le> r" and "r < 1"
  shows "\<exists>f. 1 / 2 \<le> f \<and> f \<le> 1 \<and>
     calculate_backoff s a (Some b) (Some m) jitter r = real_of_int (min (b ^ a) m) * f"
proof (cases jitter)
  case True
  have "calculate_backoff s a (Some b) (Some m) jitter r =
      real_of_int (min (b ^ a) m) * (0.5 + r * 0.5)"
    using True assms(1,2) by (simp add: calculate_backoff_def pre_jitter_given)
  moreover have "1 / 2 \<le> 0.5 + r * 0.5" "0.5 + r * 0.5 \<le> 1"
    using assms(3,4) by simp_all
  ultimately show ?thesis by blast
next
  case False
  have "calculate_backoff s a (Some b) (Some m) jitter r = real_of_int (min (b ^ a) m) * 1"
    using False assms(1,2) by (simp add: calculate_backoff_def pre_jitter_given)
  then show ?thesis by (intro exI[of _ 1]) simp
qed

lemma pre_jitter_first_attempts:
  "map (\<lambda>a. pre_jitter s a (Some 2) (Some 60)) [0, 1, 2, 3] = [1, 2, 4, 8]"
  by (simp add: pre_jitter_def py_or_def)

lemma pre_jitter_capped:
  assumes "6 \<le> a"
  shows "pre_jitter s a (Some 2) (Some 60) = 60"
proof -
  have "(2::int) ^ 6 \<le> 2 ^ a" using assms by (intro power_increasing) simp_all
  then have "(60::int) \<le> 2 ^ a" by simp
  then show ?thesis by (simp add: pre_jitter_def py_or_def)
qed

text \<open>
  Claim C5. For a base \<open>b\<close> and a cap \<open>m\<close> the backoff should be \<open>min (b ^ a) m\<close> times a
  factor in \<open>[0.5, 1]\<close>. Called with the cap \<open>0\<close> the function takes the configured
  \<open>RETRY_BACKOFF_MAX = 60\<close> in place of the cap it was given: at attempt 3 with base 2 it
  returns \<open>8\<close> without jitter, and at least \<open>4\<close> with jitter, where \<open>min (2 ^ 3) 0 = 0\<close>.
\<close>

theorem calculate_backoff_zero_cap_ignored:
  "calculate_backoff default_settings 3 (Some 2) (Some 0) False 0 = 8 \<and>
   calculate_backoff default_settings 3 (Some 2) (Some 0) True 0 = 4 \<and>
   min ((2::int) ^ 3) 0 = 0"
  by (simp add: calculate_backoff_def pre_jitter_def py_or_def default_settings_def)

section \<open>Properties of the token bucket\<close>

lemma consume_fields: "rate (snd (consume b now n)) = rate b" "capacity (snd (consume b now n)) = capacity b"
  "last_update (snd (consume b now n)) = now"
  by (simp_all add: consume_def Let_def)

lemma consume_ok:
  assumes "bucket_ok b" "0 \<le> rate b" "last_update b \<le> now" "0 \<le> n"
  shows "bucket_ok (snd (consume b now n))"
proof -
  have "0 \<le> (now - last_update b) * rate b" using assms(2,3) by simp
  then have "0 \<le> min (capacity b) (tokens b + (now - last_update b) * rate b)"
    using assms(1) by (simp add: bucket_ok_def)
  then show ?thesis using assms(1,4) by (auto simp: consume_def Let_def bucket_ok_def)
qed

lemma trace_ok:
  assumes "bucket_ok b" "0 \<le> rate b" "sorted (last_update b # map fst ops)" "\<forall>(t, n) \<in> set ops. 0 \<le> n"
  shows "\<forall>b' \<in> set (consume_trace b ops). bucket_ok b'"
  using assms
proof (induction ops arbitrary: b)
  case Nil
  then show ?case by simp
next
  case (Cons op ops)
  obtain now n where op: "op = (now, n)" by (cases op)
  let ?b = "snd (consume b now n)"
  have ok: "bucket_ok ?b" using Cons.prems op by (intro consume_ok) auto
  have "\<forall>b' \<in> set (consume_trace ?b ops). bucket_ok b'"
    using Cons.prems op ok by (intro Cons.IH) (auto simp: consume_fields)
  then show ?case using ok op by (simp add: Let_def)
qed

lemma TokenBucket_ok:
  assumes "0 \<le> rate'" and "\<And>c. cap = Some c \<Longrightarrow> 0 \<le> c"
  shows "bucket_ok (TokenBucket rate' cap now)"
  using assms by (cases cap) (simp_all add: TokenBucket_def bucket_ok_def)

lemma TokenBucket_fields:
  "rate (TokenBucket rate' cap now) = rate'" "last_update (TokenBucket rate' cap now) = now"
  by (simp_all add: TokenBucket_def Let_def)

lemma wait_for_token_ok:
  assumes "bucket_ok b" and "0 \<le> rate b" and "sorted (last_update b # clock)" and "0 \<le> n"
    and "wait_for_token b n clock = Some (b', clock')"
  shows "bucket_ok b' \<and> rate b' = rate b"
  using assms
proof (induction clock arbitrary: b)
  case Nil
  then show ?case by simp
next
  case (Cons now clock)
  let ?b = "snd (consume b now n)"
  have ok: "bucket_ok ?b" using Cons.prems by (intro consume_ok) auto
  show ?case
  proof (cases "fst (consume b now n)")
    case True
    then have "b' = ?b" using Cons.prems(5) by (cases "consume b now n") auto
    then show ?thesis using ok by (simp add: consume_fields)
  next
    case False
    then have "wait_for_token ?b n clock = Some (b', clock')"
      using Cons.prems(5) by (cases "consume b now n") auto
    then have "bucket_ok b' \<and> rate b' = rate ?b"
      using Cons.prems ok by (intro Cons.IH) (auto simp: consume_fields)
    then show ?thesis by (simp add: consume_fields)
  qed
qed

lemma rl_wait_ok:
  assumes "\<And>b. buckets key = Some b \<Longrightarrow> bucket_ok b \<and> 0 \<le> rate b \<and> sorted (last_update b # clock)"
    and "0 \<le> rate'" and "sorted clock" and "0 \<le> n"
    and "rl_wait buckets key rate' n clock = Some (buckets', clock')"
  shows "\<exists>b'. buckets' key = Some b' \<and> bucket_ok b'"
proof -
  obtain b buckets1 clock1 where gb: "get_bucket buckets key rate' clock = Some (b, buckets1, clock1)"
    using assms(5) by (auto simp: rl_wait_def split: option.splits)
  have b: "bucket_ok b \<and> 0 \<le> rate b \<and> sorted (last_update b # clock1)"
  proof (cases "buckets key")
    case None
    then obtain now where "clock = now # clock1" "b = TokenBucket rate' None now"
      using gb by (auto simp: get_bucket_def Let_def split: list.splits)
    moreover have "bucket_ok (TokenBucket rate' None now)"
      using assms(2) by (intro TokenBucket_ok) simp_all
    ultimately show ?thesis using assms(2,3) by (simp add: TokenBucket_fields)
  next
    case (Some b0)
    then have "b = b0" "clock1 = clock" using gb by (auto simp: get_bucket_def)
    then show ?thesis using assms(1) Some by simp
  qed
  obtain now clock2 where c1: "clock1 = now # clock2"
    using assms(5) gb by (cases clock1) (auto simp: rl_wait_def)
  let ?b = "snd (consume b now n)"
  have ok: "bucket_ok ?b" using b c1 assms(4) by (intro consume_ok) auto
  show ?thesis
  proof (cases "fst (consume b now n)")
    case True
    then have "buckets' = buckets1(key \<mapsto> ?b)"
      using assms(5) gb c1 by (cases "consume b now n") (auto simp: rl_wait_def)
    then show ?thesis using ok by simp
  next
    case False
    then obtain b'' where w: "wait_for_token ?b n clock2 = Some (b'', clock')" "buckets' = buckets1(key \<mapsto> b'')"
      using assms(5) gb c1 by (cases "consume b now n") (auto simp: rl_wait_def split: option.splits)
    have "bucket_ok b'' \<and> rate b'' = rate ?b"
      using w(1) ok b c1 assms(4) by (intro wait_for_token_ok[where clock = clock2 and clock' = clock' and n = n]) (auto simp: consume_fields)
    then show ?thesis using w(2) by simp
  qed
qed

text \<open>
  Claim C4. A bucket created with a rate and a capacity that are not negative holds
  between \<open>0\<close> and \<open>capacity\<close> tokens, and so does the bucket after every call of a
  sequence of \<open>consume\<close> calls, whatever each call returns, when the clock readings do
  not go backwards and no call asks for a negative amount.
\<close>

theorem token_bucket_invariant:
  assumes "0 \<le> rate'" and "\<forall>c. cap = Some c \<longrightarrow> 0 \<le> c"
    and "sorted (t0 # map fst ops)" and "\<forall>(t, n) \<in> set ops. 0 \<le> n"
  shows "bucket_ok (TokenBucket rate' cap t0) \<and>
         (\<forall>b \<in> set (consume_trace (TokenBucket rate' cap t0) ops). bucket_ok b)"
proof -
  have ok: "bucket_ok (TokenBucket rate' cap t0)" using assms(1,2) by (intro TokenBucket_ok) auto
  moreover have "\<forall>b \<in> set (consume_trace (TokenBucket rate' cap t0) ops). bucket_ok b"
    using ok assms by (intro trace_ok) (simp_all add: TokenBucket_fields)
  ultimately show ?thesis by simp
qed

theorem token_bucket_invariant_witness:
  "0 \<le> (2::real) \<and>
   sorted (0 # map fst [(0, 1), (0, 1), (0, 1), (1 / 4, 1), (5 :: real, 1 :: int)]) \<and>
   bucket_ok (TokenBucket 2 None 0) \<and>
   list_all bucket_ok
     (consume_trace (TokenBucket 2 None 0) [(0, 1), (0, 1), (0, 1), (1 / 4, 1), (5, 1)]) \<and>
   map tokens (consume_trace (TokenBucket 2 None 0) [(0, 1), (0, 1), (0, 1), (1 / 4, 1), (5, 1)]) =
     [1, 0, 0, 1 / 2, 1]"
proof -
  have h1: "0 \<le> (2::real)" by simp
  have h2: "\<forall>c. (None :: real option) = Some c \<longrightarrow> 0 \<le> c" by simp
  have h3: "sorted (0 # map fst [(0, 1), (0, 1), (0, 1), (1 / 4, 1), (5 :: real, 1 :: int)])" by simp
  have h4: "\<forall>(t, n) \<in> set [(0, 1), (0, 1), (0, 1), (1 / 4, 1), (5 :: real, 1 :: int)]. 0 \<le> n" by simp
  have v: "map tokens (consume_trace (TokenBucket 2 None 0) [(0, 1), (0, 1), (0, 1), (1 / 4, 1), (5, 1)]) =
     [1, 0, 0, 1 / 2, 1]"
    by (simp add: TokenBucket_def consume_def Let_def)
  show ?thesis
    using token_bucket_invariant [OF h1 h2 h3 h4] h1 h3 v unfolding list_all_iff by blast
qed

section \<open>Properties of cache keys and of the cache\<close>

lemma sort_key_fst_unique:
  assumes "distinct (map fst xs)" and "distinct (map fst ys)" and "set xs = set ys"
  shows "sort_key fst xs = sort_key fst ys"
proof -
  have "map fst (sort_key fst xs) = map fst (sort_key fst ys)"
  proof (rule sorted_distinct_set_unique)
    show "sorted (map fst (sort_key fst xs))" "sorted (map fst (sort_key fst ys))" by simp_all
    show "distinct (map fst (sort_key fst xs))" using assms(1) by (simp add: distinct_map)
    show "distinct (map fst (sort_key fst ys))" using assms(2) by (simp add: distinct_map)
    show "set (map fst (sort_key fst xs)) = set (map fst (sort_key fst ys))" using assms(3) by simp
  qed
  moreover have "inj_on fst (set (sort_key fst xs) \<union> set (sort_key fst ys))"
    using assms by (simp add: distinct_map)
  ultimately show ?thesis by (rule map_inj_on)
qed

lemma cache_key_order_independent:
  assumes "distinct (map fst xs)" and "distinct (map fst ys)" and "set xs = set ys"
  shows "get_cache_key str_of method xs = get_cache_key str_of method ys"
  by (simp add: get_cache_key_def sort_key_fst_unique[OF assms])

lemma sep_split:
  assumes "c \<notin> set x" and "c \<notin> set y" and "x @ c # r = y @ c # r'"
  shows "x = y \<and> r = r'"
proof -
  have "takeWhile (\<lambda>a. a \<noteq> c) (x @ c # r) = x" "takeWhile (\<lambda>a. a \<noteq> c) (y @ c # r') = y"
    using assms(1,2) by (auto simp: takeWhile_tail)
  then have "x = y" using assms(3) by simp
  then show ?thesis using assms(3) by simp
qed

lemma join_Cons: "rest \<noteq> [] \<Longrightarrow> join sep (x # rest) = x @ sep @ join sep rest"
  by (cases rest) simp_all

lemma segments_inj:
  assumes "map fst sx = map fst sy"
    and "\<forall>(k, v) \<in> set sx \<union> set sy. CHR ''&'' \<notin> set (str_of v)"
    and "join ''&'' (map (\<lambda>(k, v). k @ ''='' @ str_of v) sx) =
         join ''&'' (map (\<lambda>(k, v). k @ ''='' @ str_of v) sy)"
  shows "map (\<lambda>(k, v). (k, str_of v)) sx = map (\<lambda>(k, v). (k, str_of v)) sy"
proof -
  have len: "length sx = length sy" using assms(1) by (rule map_eq_imp_length_eq)
  from len assms show ?thesis
  proof (induction sx sy rule: list_induct2)
    case Nil
    then show ?case by simp
  next
    case (Cons p sx q sy)
    obtain k v where p: "p = (k, v)" by (cases p)
    obtain k' v' where q: "q = (k', v')" by (cases q)
    have k: "k' = k" using Cons.prems(1) p q by simp
    have nv: "CHR ''&'' \<notin> set (str_of v)" "CHR ''&'' \<notin> set (str_of v')"
      using Cons.prems(2) p q by auto
    show ?case
    proof (cases "sx = []")
      case True
      then have "sy = []" using Cons.hyps by simp
      then show ?thesis using True Cons.prems(3) p q k by simp
    next
      case False
      then have ne: "sy \<noteq> []" using Cons.hyps by auto
      have "str_of v @ CHR ''&'' # join ''&'' (map (\<lambda>(k, v). k @ ''='' @ str_of v) sx) =
            str_of v' @ CHR ''&'' # join ''&'' (map (\<lambda>(k, v). k @ ''='' @ str_of v) sy)"
        using Cons.prems(3) False ne p q k by (simp add: join_Cons)
      then have "str_of v = str_of v' \<and>
          join ''&'' (map (\<lambda>(k, v). k @ ''='' @ str_of v) sx) =
          join ''&'' (map (\<lambda>(k, v). k @ ''='' @ str_of v) sy)"
        using nv by (intro sep_split[where c = "CHR ''&''"]) 
      moreover have "map fst sx = map fst sy" using Cons.prems(1) by simp
      moreover have "\<forall>(k, v) \<in> set sx \<union> set sy. CHR ''&'' \<notin> set (str_of v)"
        using Cons.prems(2) by auto
      ultimately show ?thesis using Cons.IH p q k by simp
    qed
  qed
qed

lemma cache_key_inj:
  assumes "distinct (map fst xs)" and "distinct (map fst ys)"
    and "fst ` set xs = fst ` set ys"
    and "\<forall>(k, v) \<in> set xs \<union> set ys. CHR ''&'' \<notin> set (str_of v)"
    and "get_cache_key str_of method xs = get_cache_key str_of method ys"
  shows "(\<lambda>(k, v). (k, str_of v)) ` set xs = (\<lambda>(k, v). (k, str_of v)) ` set ys"
proof -
  let ?sx = "sort_key fst xs" and ?sy = "sort_key fst ys"
  have "map fst ?sx = map fst ?sy"
  proof (rule sorted_distinct_set_unique)
    show "sorted (map fst ?sx)" "sorted (map fst ?sy)" by simp_all
    show "distinct (map fst ?sx)" using assms(1) by (simp add: distinct_map)
    show "distinct (map fst ?sy)" using assms(2) by (simp add: distinct_map)
    show "set (map fst ?sx) = set (map fst ?sy)" using assms(3) by simp
  qed
  moreover have "\<forall>(k, v) \<in> set ?sx \<union> set ?sy. CHR ''&'' \<notin> set (str_of v)"
    using assms(4) by simp
  moreover have "join ''&'' (map (\<lambda>(k, v). k @ ''='' @ str_of v) ?sx) =
         join ''&'' (map (\<lambda>(k, v). k @ ''='' @ str_of v) ?sy)"
    using assms(5) by (simp add: get_cache_key_def)
  ultimately have "map (\<lambda>(k, v). (k, str_of v)) ?sx = map (\<lambda>(k, v). (k, str_of v)) ?sy"
    by (rule segments_inj)
  then have "set (map (\<lambda>(k, v). (k, str_of v)) ?sx) = set (map (\<lambda>(k, v). (k, str_of v)) ?sy)"
    by simp
  then show ?thesis by simp
qed

text \<open>
  Claim C6, as stated, for a configuration with caching switched off: \<open>_get_from_cache\<close>
  leaves an entry whose age has passed the TTL in the store, \<open>_save_to_cache\<close> after that
  stores nothing (the old entry and its timestamp stay), and a value that is in the store
  and fresh is not returned.
\<close>

theorem cache_disabled_put_stores_nothing:
  "3600 \<le> (4000::real) - 0 \<and>
   get_from_cache disabled_settings stale_cache ''k'' 4000 = (PNone, stale_cache) \<and>
   stale_cache ''k'' = Some (0, PStr ''old'') \<and>
   save_to_cache disabled_settings stale_cache ''k'' (PStr ''new'') 4001 ''k'' = Some (0, PStr ''old'') \<and>
   fst (get_from_cache disabled_settings [''k'' \<mapsto> (4001, PStr ''new'')] ''k'' 4002) = PNone"
  by (simp add: get_from_cache_def save_to_cache_def disabled_settings_def default_settings_def
      stale_cache_def)

text \<open>
  Claim C6, amended: with caching enabled, a lookup returns "absent" for a key that was
  never stored, the stored value for an entry younger than the TTL, and "absent" for an
  entry whose age has reached the TTL, which it removes from the store in that same
  access; storing puts a fresh entry with the time of storing under the key, whatever was
  there before. With caching disabled a lookup returns "absent" and removes nothing, and
  storing stores nothing.
\<close>

theorem cache_get_put:
  "(ENABLE_CACHE s \<longrightarrow>
      (cache k = None \<longrightarrow> get_from_cache s cache k now = (PNone, cache)) \<and>
      (\<forall>ts v. cache k = Some (ts, v) \<and> now - ts < real_of_int (CACHE_TTL s) \<longrightarrow>
         get_from_cache s cache k now = (v, cache)) \<and>
      (\<forall>ts v. cache k = Some (ts, v) \<and> real_of_int (CACHE_TTL s) \<le> now - ts \<longrightarrow>
         get_from_cache s cache k now = (PNone, cache(k := None))) \<and>
      save_to_cache s cache k v' now' = cache(k \<mapsto> (now', v'))) \<and>
   (\<not> ENABLE_CACHE s \<longrightarrow>
      get_from_cache s cache k now = (PNone, cache) \<and>
      save_to_cache s cache k v' now' = cache)"
  by (simp add: get_from_cache_def save_to_cache_def)

theorem cache_get_put_witness:
  "ENABLE_CACHE default_settings \<and>
   get_from_cache default_settings Map.empty ''k'' 10 = (PNone, Map.empty) \<and>
   stale_cache ''k'' = Some (0, PStr ''old'') \<and>
   10 - 0 < real_of_int (CACHE_TTL default_settings) \<and>
   get_from_cache default_settings stale_cache ''k'' 10 = (PStr ''old'', stale_cache) \<and>
   real_of_int (CACHE_TTL default_settings) \<le> 4000 - 0 \<and>
   get_from_cache default_settings stale_cache ''k'' 4000 = (PNone, stale_cache(''k'' := None)) \<and>
   save_to_cache default_settings (stale_cache(''k'' := None)) ''k'' (PStr ''new'') 4001 ''k'' =
     Some (4001, PStr ''new'') \<and>
   \<not> ENABLE_CACHE disabled_settings \<and>
   get_from_cache disabled_settings stale_cache ''k'' 10 = (PNone, stale_cache) \<and>
   save_to_cache disabled_settings stale_cache ''k'' (PStr ''new'') 4001 = stale_cache"
proof -
  have e: "ENABLE_CACHE default_settings" by (simp add: default_settings_def)
  have d: "\<not> ENABLE_CACHE disabled_settings"
    by (simp add: disabled_settings_def default_settings_def)
  have k: "stale_cache ''k'' = Some (0, PStr ''old'')" by (simp add: stale_cache_def)
  have n: "(Map.empty :: cache) ''k'' = None" by simp
  have f: "10 - 0 < real_of_int (CACHE_TTL default_settings)"
    and x: "real_of_int (CACHE_TTL default_settings) \<le> 4000 - 0"
    by (simp_all add: default_settings_def)
  have g0: "get_from_cache default_settings Map.empty ''k'' 10 = (PNone, Map.empty)"
    using cache_get_put [of default_settings Map.empty "''k''" 10] e n by blast
  have g1: "get_from_cache default_settings stale_cache ''k'' 10 = (PStr ''old'', stale_cache)"
    using cache_get_put [of default_settings stale_cache "''k''" 10] e k f by blast
  have g2: "get_from_cache default_settings stale_cache ''k'' 4000 =
      (PNone, stale_cache(''k'' := None))"
    using cache_get_put [of default_settings stale_cache "''k''" 4000] e k x by blast
  have p: "save_to_cache default_settings (stale_cache(''k'' := None)) ''k'' (PStr ''new'') 4001 =
      (stale_cache(''k'' := None))(''k'' \<mapsto> (4001, PStr ''new''))"
    using cache_get_put [of default_settings "stale_cache(''k'' := None)" "''k''" 0
        "PStr ''new''" 4001] e by blast
  have p': "save_to_cache default_settings (stale_cache(''k'' := None)) ''k'' (PStr ''new'') 4001 ''k'' =
      Some (4001, PStr ''new'')"
    unfolding p by simp
  have g3: "get_from_cache disabled_settings stale_cache ''k'' 10 = (PNone, stale_cache)"
    and p3: "save_to_cache disabled_settings stale_cache ''k'' (PStr ''new'') 4001 = stale_cache"
    using cache_get_put [of disabled_settings stale_cache "''k''" 10 "PStr ''new''" 4001] d
    by blast+
  show ?thesis
    using e k f x g0 g1 g2 p' d g3 p3 by (intro conjI)
qed

text \<open>
  Claim C7, as stated, for two sets of parameters with the same names that differ in both
  values: they produce the same key, since \<^verbatim>\<open>&\<close> inside a value is not escaped.
\<close>

theorem cache_key_collision:
  "[(''query'', ''a&z=1''), (''z'', ''2'')] \<noteq> [(''query'', ''a''), (''z'', ''1&z=2'')] \<and>
   get_cache_key id ''search'' [(''query'', ''a&z=1''), (''z'', ''2'')] = ''search:query=a&z=1&z=2'' \<and>
   get_cache_key id ''search'' [(''query'', ''a''), (''z'', ''1&z=2'')] = ''search:query=a&z=1&z=2''"
  by (simp add: get_cache_key_def)

lemma set_pair_swap: "set [p, q] = set [q, p]"
  by auto

lemma keys_pair_swap: "fst ` set [(a, x), (b, y)] = fst ` set [(b, z), (a, x)]"
  by auto

lemma str_pairs_differ:
  assumes "f y \<noteq> f z" and "a \<noteq> b"
  shows "(\<lambda>(k, v). (k, f v)) ` set [(a, x), (b, y)] \<noteq> (\<lambda>(k, v). (k, f v)) ` set [(b, z), (a, x)]"
proof
  assume "(\<lambda>(k, v). (k, f v)) ` set [(a, x), (b, y)] = (\<lambda>(k, v). (k, f v)) ` set [(b, z), (a, x)]"
  moreover have "(b, f y) \<in> (\<lambda>(k, v). (k, f v)) ` set [(a, x), (b, y)]" by force
  ultimately have "(b, f y) \<in> (\<lambda>(k, v). (k, f v)) ` set [(b, z), (a, x)]" by simp
  then show False using assms by auto
qed

text \<open>
  Claim C7, amended: two parameter maps with the same name/value pairs produce the same key
  in whatever order the pairs were inserted; two parameter maps over the same names whose
  values, as strings, contain no \<^verbatim>\<open>&\<close> and differ in the string of at least one value
  produce different keys.
\<close>

theorem cache_key_determinism:
  assumes "distinct (map fst xs)" and "distinct (map fst ys)"
  shows "(set xs = set ys \<longrightarrow> get_cache_key str_of method xs = get_cache_key str_of method ys) \<and>
         (fst ` set xs = fst ` set ys \<and>
          (\<forall>(k, v) \<in> set xs \<union> set ys. CHR ''&'' \<notin> set (str_of v)) \<and>
          (\<lambda>(k, v). (k, str_of v)) ` set xs \<noteq> (\<lambda>(k, v). (k, str_of v)) ` set ys \<longrightarrow>
          get_cache_key str_of method xs \<noteq> get_cache_key str_of method ys)"
  using cache_key_order_independent [OF assms] cache_key_inj [OF assms] by blast

theorem cache_key_determinism_witness:
  "distinct (map fst [(''query'', ''egfr''), (''limit'', ''5'')]) \<and>
   distinct (map fst [(''limit'', ''5''), (''query'', ''egfr'')]) \<and>
   set [(''query'', ''egfr''), (''limit'', ''5'')] = set [(''limit'', ''5''), (''query'', ''egfr'')] \<and>
   get_cache_key id ''search'' [(''query'', ''egfr''), (''limit'', ''5'')] =
     get_cache_key id ''search'' [(''limit'', ''5''), (''query'', ''egfr'')] \<and>
   distinct (map fst [(''limit'', ''9''), (''query'', ''egfr'')]) \<and>
   fst ` set [(''query'', ''egfr''), (''limit'', ''5'')] = fst ` set [(''limit'', ''9''), (''query'', ''egfr'')] \<and>
   (\<lambda>(k, v). (k, id v)) ` set [(''query'', ''egfr''), (''limit'', ''5'')] \<noteq>
     (\<lambda>(k, v). (k, id v)) ` set [(''limit'', ''9''), (''query'', ''egfr'')] \<and>
   get_cache_key id ''search'' [(''query'', ''egfr''), (''limit'', ''5'')] \<noteq>
     get_cache_key id ''search'' [(''limit'', ''9''), (''query'', ''egfr'')]"
proof -
  let ?a = "[(''query'', ''egfr''), (''limit'', ''5'')]"
  let ?b = "[(''limit'', ''5''), (''query'', ''egfr'')]"
  let ?c = "[(''limit'', ''9''), (''query'', ''egfr'')]"
  have da: "distinct (map fst ?a)" and db: "distinct (map fst ?b)" and dc: "distinct (map fst ?c)"
    by simp_all
  have s: "set ?a = set ?b" by (rule set_pair_swap)
  have k: "fst ` set ?a = fst ` set ?c" by (rule keys_pair_swap)
  have n: "\<forall>(k, v) \<in> set ?a \<union> set ?c. CHR ''&'' \<notin> set (id v)" by simp
  have d: "(\<lambda>(k, v). (k, id v)) ` set ?a \<noteq> (\<lambda>(k, v). (k, id v)) ` set ?c"
    by (rule str_pairs_differ) simp_all
  have e1: "get_cache_key id ''search'' ?a = get_cache_key id ''search'' ?b"
    using cache_key_determinism [OF da db, of id "''search''", THEN conjunct1] s by (rule mp)
  have knd: "fst ` set ?a = fst ` set ?c \<and>
      (\<forall>(k, v) \<in> set ?a \<union> set ?c. CHR ''&'' \<notin> set (id v)) \<and>
      (\<lambda>(k, v). (k, id v)) ` set ?a \<noteq> (\<lambda>(k, v). (k, id v)) ` set ?c"
    using k n d by (intro conjI)
  have e2: "get_cache_key id ''search'' ?a \<noteq> get_cache_key id ''search'' ?c"
    using cache_key_determinism [OF da dc, of id "''search''", THEN conjunct2] knd by (rule mp)
  show ?thesis
    using da db dc s k d e1 e2 by (intro conjI)
qed

section \<open>Properties of the envelope\<close>

lemma call_key_error:
  assumes "envelope_key str_of method_name query kwargs = Inl e"
  shows "execute_with_monitoring s name str_of parse_results method_name query func kwargs tm st =
           (Inl e, st)"
  using assms by (simp add: execute_with_monitoring_def)

lemma call_hit:
  assumes "envelope_key str_of method_name query kwargs = Inr k"
    and "get_from_cache s (tool_cache st) k (t_lookup tm) = (d, c)" and "d \<noteq> PNone"
  shows "execute_with_monitoring s name str_of parse_results method_name query func kwargs tm st =
           (Inr (hit_result name query tm d), st\<lparr>tool_cache := c\<rparr>)"
  using assms by (simp add: execute_with_monitoring_def try_block_def hit_result_def)

lemma call_miss_raise:
  assumes "envelope_key str_of method_name query kwargs = Inr k"
    and "get_from_cache s (tool_cache st) k (t_lookup tm) = (PNone, c)"
    and "func kwargs (world st) = (Inl e, w)"
  shows "execute_with_monitoring s name str_of parse_results method_name query func kwargs tm st =
           (caught name query tm e,
            st\<lparr>tool_cache := c, invocations := invocations st + 1, world := w\<rparr>)"
  using assms
  by (simp add: execute_with_monitoring_def try_block_def caught_def error_result_def)

lemma call_miss_parse_raise:
  assumes "envelope_key str_of method_name query kwargs = Inr k"
    and "get_from_cache s (tool_cache st) k (t_lookup tm) = (PNone, c)"
    and "func kwargs (world st) = (Inr raw, w)" and "parse_results raw = Inl e"
  shows "execute_with_monitoring s name str_of parse_results method_name query func kwargs tm st =
           (caught name query tm e,
            st\<lparr>tool_cache := c, invocations := invocations st + 1, world := w\<rparr>)"
  using assms
  by (simp add: execute_with_monitoring_def try_block_def caught_def error_result_def)

lemma call_miss_ok:
  assumes "envelope_key str_of method_name query kwargs = Inr k"
    and "get_from_cache s (tool_cache st) k (t_lookup tm) = (PNone, c)"
    and "func kwargs (world st) = (Inr raw, w)" and "parse_results raw = Inr p"
  shows "execute_with_monitoring s name str_of parse_results method_name query func kwargs tm st =
           (Inr (miss_result name query tm p),
            st\<lparr>tool_cache := save_to_cache s c k p (t_save tm),
               invocations := invocations st + 1, world := w\<rparr>)"
  using assms
  by (simp add: execute_with_monitoring_def try_block_def miss_result_def)


lemma lookup_stored_None:
  assumes "cache k = Some (ts, PNone)"
  shows "fst (get_from_cache s cache k now) = PNone"
  using assms by (simp add: get_from_cache_def)

lemma entry_agrees_lookup:
  assumes "entry_agrees parse_results r cache k"
    and "get_from_cache s cache k now = (d, c)"
  shows "entry_agrees parse_results r c k"
    and "d \<noteq> PNone \<Longrightarrow> outcome_of parse_results r = Inr (True, d, None)"
  using assms
  by (auto simp: get_from_cache_def entry_agrees_def split: if_splits option.splits)

lemma entry_agrees_save:
  assumes "outcome_of parse_results r = Inr (True, p, None)"
    and "entry_agrees parse_results r c k"
  shows "entry_agrees parse_results r (save_to_cache s c k p now) k"
  using assms by (simp add: save_to_cache_def entry_agrees_def split: option.splits)

lemma observable_caught:
  "observable (caught name query tm e) =
     (if isinstance e [PyException] then Inr (False, PNone, Some (handle_errors e)) else Inl e)"
  by (simp add: observable_def caught_def error_result_def)

lemma call_deterministic:
  assumes k: "envelope_key str_of method_name query kwargs = Inr k"
    and det: "\<And>w. fst (func kwargs w) = out0"
    and inv: "entry_agrees parse_results out0 (tool_cache st) k"
  shows "observable (fst (execute_with_monitoring s name str_of parse_results method_name query
             func kwargs tm st)) = outcome_of parse_results out0 \<and>
         entry_agrees parse_results out0
           (tool_cache (snd (execute_with_monitoring s name str_of parse_results method_name
              query func kwargs tm st))) k"
proof -
  obtain d c where g: "get_from_cache s (tool_cache st) k (t_lookup tm) = (d, c)"
    by (cases "get_from_cache s (tool_cache st) k (t_lookup tm)")
  note agree = entry_agrees_lookup[OF inv g]
  obtain w where f: "func kwargs (world st) = (out0, w)"
    using det[of "world st"] by (cases "func kwargs (world st)") simp
  show ?thesis
  proof (cases "d = PNone")
    case False
    show ?thesis
      using call_hit[where st = st and s = s and tm = tm, OF k g False] agree False
      by (simp add: observable_def hit_result_def)
  next
    case True
    note g' = g[unfolded True]
    show ?thesis
    proof (cases out0)
      case (Inl e)
      show ?thesis
        using call_miss_raise[where func = func and kwargs = kwargs and st = st and s = s
            and tm = tm, OF k g' f[unfolded Inl]] agree(1) Inl
        by (simp add: observable_caught outcome_of_def)
    next
      case (Inr raw)
      show ?thesis
      proof (cases "parse_results raw")
        case (Inl e)
        show ?thesis
          using call_miss_parse_raise[where func = func and kwargs = kwargs and st = st and s = s
              and tm = tm and parse_results = parse_results and raw = raw,
              OF k g' f[unfolded Inr] Inl] agree(1) Inr Inl
          by (simp add: observable_caught outcome_of_def)
      next
        case p: (Inr p)
        have o: "outcome_of parse_results out0 = Inr (True, p, None)"
          using Inr p by (simp add: outcome_of_def)
        show ?thesis
          using call_miss_ok[where func = func and kwargs = kwargs and st = st and s = s
              and tm = tm and parse_results = parse_results and raw = raw,
              OF k g' f[unfolded Inr] p] o entry_agrees_save[OF o agree(1)]
          by (simp add: observable_def miss_result_def)
      qed
    qed
  qed
qed

lemma run_calls_Cons:
  "run_calls call (tm # tms) st =
     (fst (call tm st) # fst (run_calls call tms (snd (call tm st))),
      snd (run_calls call tms (snd (call tm st))))"
  by (simp add: split_def Let_def)

lemma run_calls_deterministic:
  assumes k: "envelope_key str_of method_name query kwargs = Inr k"
    and det: "\<And>w. fst (func kwargs w) = out0"
    and inv: "entry_agrees parse_results out0 (tool_cache st) k"
  shows "map observable (fst (run_calls (execute_with_monitoring s name str_of parse_results
             method_name query func kwargs) tms st)) =
         replicate (length tms) (outcome_of parse_results out0)"
  using inv
proof (induction tms arbitrary: st)
  case Nil
  show ?case by simp
next
  case (Cons tm tms)
  let ?call = "execute_with_monitoring s name str_of parse_results method_name query func kwargs"
  obtain r st1 where c: "?call tm st = (r, st1)" by (cases "?call tm st")
  have "observable r = outcome_of parse_results out0"
    and "entry_agrees parse_results out0 (tool_cache st1) k"
    using call_deterministic[where func = func and kwargs = kwargs, OF k det Cons.prems, of s name tm] c
    by simp_all
  then show ?case
    using Cons.IH[of st1] c by (simp add: run_calls_Cons del: run_calls.simps)
qed

lemma run_calls_key_error:
  assumes "envelope_key str_of method_name query kwargs = Inl e"
  shows "map observable (fst (run_calls (execute_with_monitoring s name str_of parse_results
             method_name query func kwargs) tms st)) = replicate (length tms) (Inl e)"
proof (induction tms arbitrary: st)
  case Nil
  show ?case by simp
next
  case (Cons tm tms)
  show ?case
    using Cons.IH[of st] call_key_error[OF assms, of s name parse_results func tm st]
    by (simp add: run_calls_Cons observable_def del: run_calls.simps)
qed

lemma call_disabled_invokes:
  assumes k: "envelope_key str_of method_name query kwargs = Inr k" and off: "\<not> ENABLE_CACHE s"
  shows "invocations (snd (execute_with_monitoring s name str_of parse_results method_name query
             func kwargs tm st)) = invocations st + 1"
proof -
  have g: "get_from_cache s (tool_cache st) k (t_lookup tm) = (PNone, tool_cache st)"
    using off by (simp add: get_from_cache_def)
  obtain r w where f: "func kwargs (world st) = (r, w)" by (cases "func kwargs (world st)")
  show ?thesis
  proof (cases r)
    case (Inl e)
    show ?thesis
      using call_miss_raise[where func = func and kwargs = kwargs and st = st and s = s
          and tm = tm, OF k g f[unfolded Inl]] by simp
  next
    case (Inr raw)
    show ?thesis
    proof (cases "parse_results raw")
      case (Inl e)
      show ?thesis
        using call_miss_parse_raise[where func = func and kwargs = kwargs and st = st and s = s
            and tm = tm and parse_results = parse_results and raw = raw,
            OF k g f[unfolded Inr] Inl] by simp
    next
      case p: (Inr p)
      show ?thesis
        using call_miss_ok[where func = func and kwargs = kwargs and st = st and s = s
            and tm = tm and parse_results = parse_results and raw = raw,
            OF k g f[unfolded Inr] p] by simp
    qed
  qed
qed

lemma run_calls_disabled_invokes:
  assumes k: "envelope_key str_of method_name query kwargs = Inr k" and off: "\<not> ENABLE_CACHE s"
  shows "invocations (snd (run_calls (execute_with_monitoring s name str_of parse_results
             method_name query func kwargs) tms st)) = invocations st + length tms"
proof (induction tms arbitrary: st)
  case Nil
  show ?case by simp
next
  case (Cons tm tms)
  let ?call = "execute_with_monitoring s name str_of parse_results method_name query func kwargs"
  show ?case
    using Cons.IH[of "snd (?call tm st)"]
      call_disabled_invokes[OF k off, of name parse_results func tm st]
    by (simp add: run_calls_Cons del: run_calls.simps)
qed

lemma second_call_hits:
  assumes k: "envelope_key str_of method_name query kwargs = Inr k" and on: "ENABLE_CACHE s"
    and fresh: "tool_cache st k = None"
    and first: "execute_with_monitoring s name str_of parse_results method_name query func kwargs
                  tm1 st = (Inr r1, st1)"
    and ok: "success r1" and some: "data r1 \<noteq> PNone"
    and ttl: "t_lookup tm2 - t_save tm1 < real_of_int (CACHE_TTL s)"
  shows "execute_with_monitoring s name str_of parse_results method_name query func kwargs
           tm2 st1 = (Inr (hit_result name query tm2 (data r1)), st1)"
proof -
  have g: "get_from_cache s (tool_cache st) k (t_lookup tm1) = (PNone, tool_cache st)"
    using fresh by (simp add: get_from_cache_def)
  obtain r w where f: "func kwargs (world st) = (r, w)" by (cases "func kwargs (world st)")
  have stored: "tool_cache st1 k = Some (t_save tm1, data r1)"
  proof (cases r)
    case (Inl e)
    show ?thesis
      using call_miss_raise[where func = func and kwargs = kwargs and st = st and s = s
          and tm = tm1, OF k g f[unfolded Inl], of name parse_results] first ok
      by (auto simp: caught_def error_result_def split: if_splits)
  next
    case (Inr raw)
    show ?thesis
    proof (cases "parse_results raw")
      case (Inl e)
      show ?thesis
        using call_miss_parse_raise[where func = func and kwargs = kwargs and st = st and s = s
            and tm = tm1 and parse_results = parse_results and raw = raw,
            OF k g f[unfolded Inr] Inl, of name] first ok
        by (auto simp: caught_def error_result_def split: if_splits)
    next
      case p: (Inr p)
      show ?thesis
        using call_miss_ok[where func = func and kwargs = kwargs and st = st and s = s
            and tm = tm1 and parse_results = parse_results and raw = raw,
            OF k g f[unfolded Inr] p, of name] first on
        by (auto simp: miss_result_def save_to_cache_def)
    qed
  qed
  have "get_from_cache s (tool_cache st1) k (t_lookup tm2) = (data r1, tool_cache st1)"
    using stored on ttl by (simp add: get_from_cache_def)
  then show ?thesis
    using call_hit[where st = st1 and s = s and tm = tm2 and c = "tool_cache st1", OF k _ some]
    by simp
qed

text \<open>The calls of the examples, evaluated.\<close>

lemma pubmed_key: "envelope_key id ''search_pubmed'' ''egfr'' ([] :: (string \<times> string) list) =
    Inr ''search_pubmed:query=egfr''"
  by (simp add: envelope_key_def get_cache_key_def)


lemma fetch_net0: "fetch response [] net0 = (Inr response, net1)"
  by (simp add: fetch_def rate_limited_def net0_def net1_def rl_wait_def get_bucket_def
      TokenBucket_def consume_def Let_def)

lemma first_call_papers:
  "pubmed_call default_settings list_parser (fetch papers) [] (at_time 0) (new_tool net0) =
     (Inr (miss_result ''PubMed'' ''egfr'' (at_time 0) papers), warm_tool)"
proof -
  have g: "get_from_cache default_settings (tool_cache (new_tool net0)) ''search_pubmed:query=egfr''
      (t_lookup (at_time 0)) = (PNone, Map.empty)"
    by (simp add: get_from_cache_def new_tool_def)
  have f: "fetch papers [] (world (new_tool net0)) = (Inr papers, net1)"
    by (simp add: new_tool_def fetch_net0)
  have p: "list_parser papers = Inr papers" by (simp add: list_parser_def papers_def)
  show ?thesis
    unfolding pubmed_call_def
    using call_miss_ok[where func = "fetch papers" and kwargs = "[]" and st = "new_tool net0"
        and s = default_settings and tm = "at_time 0" and parse_results = list_parser
        and raw = papers, OF pubmed_key g f p, of "''PubMed''"]
    by (simp add: new_tool_def warm_tool_def save_to_cache_def default_settings_def at_time_def)
qed

lemma first_call_null:
  "pubmed_call default_settings passthrough_parser (fetch PNone) [] (at_time 0) (new_tool net0) =
     (Inr (miss_result ''PubMed'' ''egfr'' (at_time 0) PNone), null_tool)"
proof -
  have g: "get_from_cache default_settings (tool_cache (new_tool net0)) ''search_pubmed:query=egfr''
      (t_lookup (at_time 0)) = (PNone, Map.empty)"
    by (simp add: get_from_cache_def new_tool_def)
  have f: "fetch PNone [] (world (new_tool net0)) = (Inr PNone, net1)"
    by (simp add: new_tool_def fetch_net0)
  have p: "passthrough_parser PNone = Inr PNone" by (simp add: passthrough_parser_def)
  show ?thesis
    unfolding pubmed_call_def
    using call_miss_ok[where func = "fetch PNone" and kwargs = "[]" and st = "new_tool net0"
        and s = default_settings and tm = "at_time 0" and parse_results = passthrough_parser
        and raw = PNone, OF pubmed_key g f p, of "''PubMed''"]
    by (simp add: new_tool_def null_tool_def save_to_cache_def default_settings_def at_time_def)
qed

lemmas envelope_eval =
  pubmed_call_def execute_with_monitoring_def try_block_def envelope_key_def
  envelope_parameters_def get_cache_key_def
  get_from_cache_def save_to_cache_def new_tool_def at_time_def net0_def
  fetch_def fetch_flaky_def rate_limited_def rl_wait_def get_bucket_def TokenBucket_def
  consume_def default_settings_def disabled_settings_def observable_def Let_def
  list_parser_def not_a_list_def passthrough_parser_def papers_def conn_refused_def
  handle_errors_def
  isinstance_def





text \<open>
  Claim C8. A call whose lookup finds, under its key, an entry younger than the TTL with a
  value other than \<^verbatim>\<open>None\<close> returns a successful result with that value, marked as cached,
  and leaves the state as it found it: the request function has not run, and the world it
  acts on, the buckets of the rate limiter and their tokens among it, is unchanged.
\<close>

theorem cache_hit_skips_request:
  assumes "envelope_key str_of method_name query kwargs = Inr k"
    and "ENABLE_CACHE s" and "tool_cache st k = Some (ts, d)"
    and "t_lookup tm - ts < real_of_int (CACHE_TTL s)" and "d \<noteq> PNone"
  shows "execute_with_monitoring s name str_of parse_results method_name query func kwargs tm st =
           (Inr (hit_result name query tm d), st) \<and>
         success (hit_result name query tm d) \<and> data (hit_result name query tm d) = d \<and>
         is_cache_hit (Inr (hit_result name query tm d))"
proof -
  have "get_from_cache s (tool_cache st) k (t_lookup tm) = (d, tool_cache st)"
    using assms(2-4) by (simp add: get_from_cache_def)
  then show ?thesis
    using call_hit[where st = st and s = s and tm = tm and c = "tool_cache st", OF assms(1) _ assms(5)]
    by (simp add: hit_result_def is_cache_hit_def)
qed

theorem cache_hit_skips_request_witness:
  "snd (pubmed_call default_settings list_parser (fetch papers) [] (at_time 0) (new_tool net0)) =
     warm_tool \<and>
   ENABLE_CACHE default_settings \<and>
   tool_cache warm_tool ''search_pubmed:query=egfr'' = Some (1 / 2, papers) \<and>
   t_lookup (at_time 1) - 1 / 2 < real_of_int (CACHE_TTL default_settings) \<and>
   papers \<noteq> PNone \<and>
   pubmed_call default_settings list_parser (fetch papers) [] (at_time 1) warm_tool =
     (Inr (hit_result ''PubMed'' ''egfr'' (at_time 1) papers), warm_tool) \<and>
   invocations warm_tool = 1 \<and> requests (world warm_tool) = 1 \<and>
   map_option tokens (limiter (world warm_tool) ''pubmed'') = Some 2"
proof -
  have h2: "ENABLE_CACHE default_settings" by (simp add: default_settings_def)
  have h3: "tool_cache warm_tool ''search_pubmed:query=egfr'' = Some (1 / 2, papers)"
    by (simp add: warm_tool_def)
  have h4: "t_lookup (at_time 1) - 1 / 2 < real_of_int (CACHE_TTL default_settings)"
    by (simp add: at_time_def default_settings_def)
  have h5: "papers \<noteq> PNone" by (simp add: papers_def)
  have c: "pubmed_call default_settings list_parser (fetch papers) [] (at_time 1) warm_tool =
     (Inr (hit_result ''PubMed'' ''egfr'' (at_time 1) papers), warm_tool)"
    unfolding pubmed_call_def
    using cache_hit_skips_request [where st = warm_tool and s = default_settings
        and tm = "at_time 1", OF pubmed_key h2 h3 h4 h5] by blast
  have w: "invocations warm_tool = 1" "requests (world warm_tool) = 1"
    "map_option tokens (limiter (world warm_tool) ''pubmed'') = Some 2"
    by (simp_all add: warm_tool_def net1_def)
  show ?thesis
    using h2 h3 h4 h5 c w by (simp add: first_call_papers)
qed

text \<open>
  Claim C9, as stated, fails for a request function whose outcome changes from one call to
  the next: answered the first time and refused the second, it gives two successes with
  caching enabled and a success followed by a failure with caching disabled. It fails as
  well for a parser that returns \<^verbatim>\<open>None\<close>: with caching enabled and within the TTL, the
  second call runs the request function again.
\<close>

theorem caching_changes_results:
  "map observable (fst (run_calls (pubmed_call default_settings list_parser (fetch_flaky papers) [])
      [at_time 0, at_time 1] (new_tool net0))) =
     [Inr (True, papers, None), Inr (True, papers, None)] \<and>
   map observable (fst (run_calls (pubmed_call disabled_settings list_parser (fetch_flaky papers) [])
      [at_time 0, at_time 1] (new_tool net0))) =
     [Inr (True, papers, None),
      Inr (False, PNone,
        Some ''Failed to connect to API. Please check your internet connection.'')] \<and>
   t_lookup (at_time 1) - t_save (at_time 0) < real_of_int (CACHE_TTL default_settings) \<and>
   invocations (snd (run_calls (pubmed_call default_settings passthrough_parser (fetch PNone) [])
      [at_time 0, at_time 1] (new_tool net0))) = 2"
  by (simp add: envelope_eval)

text \<open>
  Claim C9, amended, for the calls of a tool whose cache starts empty. For a request
  function with the same outcome at every call, a sequence of calls shows the same success
  flags, data and errors (or raises the same exception) with caching enabled and with
  caching disabled. For a call whose cache key is built (no keyword argument is named
  \<^verbatim>\<open>method\<close> or like a parameter of the envelope): with caching disabled every call of a sequence runs the request function; with caching enabled, after
  a first call that succeeded with data other than \<^verbatim>\<open>None\<close>, a second call within the TTL
  of the time the first one stored its value returns that same data, marked as cached, and
  leaves the state as it found it, so the request function is not run again.
\<close>

theorem caching_is_transparent:
  assumes "tool_cache st = Map.empty"
  shows
    "((\<forall>w. fst (func kwargs w) = out0) \<longrightarrow>
        map observable (fst (run_calls (execute_with_monitoring (s\<lparr>ENABLE_CACHE := True\<rparr>) name
          str_of parse_results method_name query func kwargs) tms st)) =
        map observable (fst (run_calls (execute_with_monitoring (s\<lparr>ENABLE_CACHE := False\<rparr>) name
          str_of parse_results method_name query func kwargs) tms st))) \<and>
     (\<forall>k. envelope_key str_of method_name query kwargs = Inr k \<longrightarrow>
        invocations (snd (run_calls (execute_with_monitoring (s\<lparr>ENABLE_CACHE := False\<rparr>) name
          str_of parse_results method_name query func kwargs) tms st)) =
          invocations st + length tms \<and>
        (\<forall>r1 st1.
           execute_with_monitoring (s\<lparr>ENABLE_CACHE := True\<rparr>) name str_of parse_results
             method_name query func kwargs tm1 st = (Inr r1, st1) \<and>
           success r1 \<and> data r1 \<noteq> PNone \<and>
           t_lookup tm2 - t_save tm1 < real_of_int (CACHE_TTL s) \<longrightarrow>
           execute_with_monitoring (s\<lparr>ENABLE_CACHE := True\<rparr>) name str_of parse_results
             method_name query func kwargs tm2 st1 =
             (Inr (hit_result name query tm2 (data r1)), st1)))"
proof (intro conjI impI allI)
  assume det: "\<forall>w. fst (func kwargs w) = out0"
  show "map observable (fst (run_calls (execute_with_monitoring (s\<lparr>ENABLE_CACHE := True\<rparr>) name
          str_of parse_results method_name query func kwargs) tms st)) =
        map observable (fst (run_calls (execute_with_monitoring (s\<lparr>ENABLE_CACHE := False\<rparr>) name
          str_of parse_results method_name query func kwargs) tms st))"
  proof (cases "envelope_key str_of method_name query kwargs")
    case (Inl e)
    show ?thesis by (simp add: run_calls_key_error[OF Inl])
  next
    case (Inr k)
    have inv: "entry_agrees parse_results out0 (tool_cache st) k"
      using assms by (simp add: entry_agrees_def)
    have d: "\<And>w. fst (func kwargs w) = out0" using det by simp
    show ?thesis
      by (simp add: run_calls_deterministic[where func = func and kwargs = kwargs, OF Inr d inv])
  qed
next
  fix k
  assume k: "envelope_key str_of method_name query kwargs = Inr k"
  show "invocations (snd (run_calls (execute_with_monitoring (s\<lparr>ENABLE_CACHE := False\<rparr>) name
          str_of parse_results method_name query func kwargs) tms st)) =
          invocations st + length tms"
    by (rule run_calls_disabled_invokes[OF k]) simp
next
  fix k r1 st1
  assume k: "envelope_key str_of method_name query kwargs = Inr k"
    and h: "execute_with_monitoring (s\<lparr>ENABLE_CACHE := True\<rparr>) name str_of parse_results
             method_name query func kwargs tm1 st = (Inr r1, st1) \<and>
           success r1 \<and> data r1 \<noteq> PNone \<and>
           t_lookup tm2 - t_save tm1 < real_of_int (CACHE_TTL s)"
  have fresh: "tool_cache st k = None" using assms by simp
  show "execute_with_monitoring (s\<lparr>ENABLE_CACHE := True\<rparr>) name str_of parse_results
             method_name query func kwargs tm2 st1 =
             (Inr (hit_result name query tm2 (data r1)), st1)"
    using h by (intro second_call_hits[OF k _ fresh, where ?tm1.0 = tm1]) simp_all
qed

theorem caching_is_transparent_witness:
  "tool_cache (new_tool net0) = Map.empty \<and>
   map observable (fst (run_calls (pubmed_call default_settings list_parser
      (fetch_unlimited papers) []) [at_time 0, at_time 1] (new_tool net0))) =
   map observable (fst (run_calls (pubmed_call disabled_settings list_parser
      (fetch_unlimited papers) []) [at_time 0, at_time 1] (new_tool net0))) \<and>
   invocations (snd (run_calls (pubmed_call disabled_settings list_parser (fetch papers) [])
      [at_time 0, at_time 1] (new_tool net0))) = 2 \<and>
   success (miss_result ''PubMed'' ''egfr'' (at_time 0) papers) \<and>
   data (miss_result ''PubMed'' ''egfr'' (at_time 0) papers) = papers \<and>
   t_lookup (at_time 1) - t_save (at_time 0) < real_of_int (CACHE_TTL default_settings) \<and>
   pubmed_call default_settings list_parser (fetch papers) [] (at_time 1) warm_tool =
     (Inr (hit_result ''PubMed'' ''egfr'' (at_time 1) papers), warm_tool)"
proof -
  have on: "default_settings\<lparr>ENABLE_CACHE := True\<rparr> = default_settings"
    and off: "default_settings\<lparr>ENABLE_CACHE := False\<rparr> = disabled_settings"
    by (simp_all add: default_settings_def disabled_settings_def)
  have fresh: "tool_cache (new_tool net0) = Map.empty" by (simp add: new_tool_def)
  have det: "\<forall>w. fst (fetch_unlimited papers [] w) = Inr papers"
    by (simp add: fetch_unlimited_def)
  note thm1 = caching_is_transparent [OF fresh, where func = "fetch_unlimited papers"
      and kwargs = "[]" and ?out0.0 = "Inr papers" and s = default_settings
      and name = "''PubMed''" and str_of = id and parse_results = list_parser
      and method_name = "''search_pubmed''" and query = "''egfr''"
      and tms = "[at_time 0, at_time 1]", unfolded on off, folded pubmed_call_def]
  have a: "map observable (fst (run_calls (pubmed_call default_settings list_parser
      (fetch_unlimited papers) []) [at_time 0, at_time 1] (new_tool net0))) =
   map observable (fst (run_calls (pubmed_call disabled_settings list_parser
      (fetch_unlimited papers) []) [at_time 0, at_time 1] (new_tool net0)))"
    using thm1 det by blast
  note thm2 = caching_is_transparent [OF fresh, where func = "fetch papers"
      and kwargs = "[]" and s = default_settings
      and name = "''PubMed''" and str_of = id and parse_results = list_parser
      and method_name = "''search_pubmed''" and query = "''egfr''"
      and tms = "[at_time 0, at_time 1]" and ?tm1.0 = "at_time 0" and ?tm2.0 = "at_time 1",
      unfolded on off, folded pubmed_call_def]
  have b: "invocations (snd (run_calls (pubmed_call disabled_settings list_parser (fetch papers) [])
      [at_time 0, at_time 1] (new_tool net0))) = invocations (new_tool net0) + length [at_time 0, at_time 1]"
    using thm2 pubmed_key by blast
  have ok: "success (miss_result ''PubMed'' ''egfr'' (at_time 0) papers)"
    and d: "data (miss_result ''PubMed'' ''egfr'' (at_time 0) papers) = papers"
    and nn: "data (miss_result ''PubMed'' ''egfr'' (at_time 0) papers) \<noteq> PNone"
    by (simp_all add: miss_result_def papers_def)
  have t: "t_lookup (at_time 1) - t_save (at_time 0) < real_of_int (CACHE_TTL default_settings)"
    by (simp add: at_time_def default_settings_def)
  have c: "pubmed_call default_settings list_parser (fetch papers) [] (at_time 1) warm_tool =
     (Inr (hit_result ''PubMed'' ''egfr'' (at_time 1)
        (data (miss_result ''PubMed'' ''egfr'' (at_time 0) papers))), warm_tool)"
    using thm2 pubmed_key first_call_papers ok nn t by blast
  show ?thesis
    using fresh a b ok d t c by (simp add: new_tool_def)
qed

text \<open>
  Claim C10. When the value stored under the key of a call is \<^verbatim>\<open>None\<close>, the call runs the
  request function, whatever the age of the entry and whether caching is enabled or not,
  and what it returns is not marked as served from the cache.
\<close>

theorem cached_None_is_a_miss:
  assumes "envelope_key str_of method_name query kwargs = Inr k"
    and "tool_cache st k = Some (ts, PNone)"
  shows "invocations (snd (execute_with_monitoring s name str_of parse_results method_name query
             func kwargs tm st)) = invocations st + 1 \<and>
         world (snd (execute_with_monitoring s name str_of parse_results method_name query
             func kwargs tm st)) = snd (func kwargs (world st)) \<and>
         \<not> is_cache_hit (fst (execute_with_monitoring s name str_of parse_results method_name
             query func kwargs tm st))"
proof -
  obtain c where c: "get_from_cache s (tool_cache st) k (t_lookup tm) = (PNone, c)"
    using lookup_stored_None[where cache = "tool_cache st" and k = k, OF assms(2), of s "t_lookup tm"]
    by (metis prod.collapse)
  obtain r w where f: "func kwargs (world st) = (r, w)" by (cases "func kwargs (world st)")
  show ?thesis
  proof (cases r)
    case (Inl e)
    show ?thesis
      using call_miss_raise[where func = func and kwargs = kwargs and st = st and s = s and tm = tm, OF assms(1) c f[unfolded Inl]] f
      by (simp add: caught_def error_result_def is_cache_hit_def)
  next
    case (Inr raw)
    show ?thesis
    proof (cases "parse_results raw")
      case (Inl e)
      show ?thesis
        using call_miss_parse_raise[where func = func and kwargs = kwargs and st = st and s = s and tm = tm
            and parse_results = parse_results and raw = raw, OF assms(1) c f[unfolded Inr] Inl] f
        by (simp add: caught_def error_result_def is_cache_hit_def)
    next
      case p: (Inr p)
      show ?thesis
        using call_miss_ok[where func = func and kwargs = kwargs and st = st and s = s and tm = tm
            and parse_results = parse_results and raw = raw, OF assms(1) c f[unfolded Inr] p] f
        by (simp add: miss_result_def is_cache_hit_def)
    qed
  qed
qed

theorem cached_None_is_a_miss_witness:
  "snd (pubmed_call default_settings passthrough_parser (fetch PNone) [] (at_time 0)
     (new_tool net0)) = null_tool \<and>
   tool_cache null_tool ''search_pubmed:query=egfr'' = Some (1 / 2, PNone) \<and>
   t_lookup (at_time 1) - 1 / 2 < real_of_int (CACHE_TTL default_settings) \<and>
   invocations null_tool = 1 \<and>
   invocations (snd (pubmed_call default_settings passthrough_parser (fetch PNone) []
     (at_time 1) null_tool)) = 2 \<and>
   \<not> is_cache_hit (fst (pubmed_call default_settings passthrough_parser (fetch PNone) []
     (at_time 1) null_tool))"
proof -
  have h2: "tool_cache null_tool ''search_pubmed:query=egfr'' = Some (1 / 2, PNone)"
    by (simp add: null_tool_def)
  have t: "t_lookup (at_time 1) - 1 / 2 < real_of_int (CACHE_TTL default_settings)"
    by (simp add: at_time_def default_settings_def)
  have i: "invocations null_tool = 1" by (simp add: null_tool_def)
  have c: "invocations (snd (pubmed_call default_settings passthrough_parser (fetch PNone) []
     (at_time 1) null_tool)) = invocations null_tool + 1"
    and n: "\<not> is_cache_hit (fst (pubmed_call default_settings passthrough_parser (fetch PNone) []
     (at_time 1) null_tool))"
    unfolding pubmed_call_def
    using cached_None_is_a_miss [where st = null_tool, OF pubmed_key h2,
        of default_settings "''PubMed''" passthrough_parser "fetch PNone" "at_time 1"]
    by blast+
  show ?thesis
    using h2 t i c n by (simp add: first_call_null)
qed

end
